theory Spec2Isabelle
  imports Main "HOL-Library.Multiset"
begin

text \<open>
  The customer hierarchy engine: the validation rules and the create, update, delete and
  batch-add operations of the hook \<open>useCustomerData\<close>, and the file parser and the
  two-pass resolver of the component \<open>ImportCustomers\<close>. Each source function is a HOL
  function of the same name; the store is passed in and returned, the clock and the random
  generator are arguments, and the one exception the resolver can raise is a value.
\<close>

section \<open>Strings\<close>

text \<open>
  A JavaScript string is modelled as a \<^typ>\<open>string\<close>: a list of code units, restricted to
  the range U+0000..U+00FF. \<open>trim\<close> removes the white space of that range from both ends,
  \<open>toLowerCase\<close> maps \<open>A..Z\<close> and the Latin-1 capitals to their small letters, and a string
  is falsy exactly when it is empty.
\<close>

definition is_space :: "char \<Rightarrow> bool" where
  "is_space c = (c \<in> set [CHR 0x09, CHR 0x0A, CHR 0x0B, CHR 0x0C, CHR 0x0D, CHR 0x20, CHR 0xA0])"

definition trim :: "string \<Rightarrow> string" where
  "trim s = rev (dropWhile is_space (rev (dropWhile is_space s)))"

definition upper_chars :: "char list" where
  "upper_chars = ''ABCDEFGHIJKLMNOPQRSTUVWXYZ'' @
     [CHR 0xC0, CHR 0xC1, CHR 0xC2, CHR 0xC3, CHR 0xC4, CHR 0xC5, CHR 0xC6, CHR 0xC7,
      CHR 0xC8, CHR 0xC9, CHR 0xCA, CHR 0xCB, CHR 0xCC, CHR 0xCD, CHR 0xCE, CHR 0xCF,
      CHR 0xD0, CHR 0xD1, CHR 0xD2, CHR 0xD3, CHR 0xD4, CHR 0xD5, CHR 0xD6,
      CHR 0xD8, CHR 0xD9, CHR 0xDA, CHR 0xDB, CHR 0xDC, CHR 0xDD, CHR 0xDE]"

definition lower_chars :: "char list" where
  "lower_chars = ''abcdefghijklmnopqrstuvwxyz'' @
     [CHR 0xE0, CHR 0xE1, CHR 0xE2, CHR 0xE3, CHR 0xE4, CHR 0xE5, CHR 0xE6, CHR 0xE7,
      CHR 0xE8, CHR 0xE9, CHR 0xEA, CHR 0xEB, CHR 0xEC, CHR 0xED, CHR 0xEE, CHR 0xEF,
      CHR 0xF0, CHR 0xF1, CHR 0xF2, CHR 0xF3, CHR 0xF4, CHR 0xF5, CHR 0xF6,
      CHR 0xF8, CHR 0xF9, CHR 0xFA, CHR 0xFB, CHR 0xFC, CHR 0xFD, CHR 0xFE]"

definition lower_char :: "char \<Rightarrow> char" where
  "lower_char c = (case map_of (zip upper_chars lower_chars) c of Some l \<Rightarrow> l | None \<Rightarrow> c)"

definition toLowerCase :: "string \<Rightarrow> string" where
  "toLowerCase s = map lower_char s"

definition digit_char :: "nat \<Rightarrow> char" where
  "digit_char d = ''0123456789'' ! d"

text \<open>The decimal text of a number, as a template literal prints it.\<close>

fun show_nat :: "nat \<Rightarrow> string" where
  "show_nat n = (if n < 10 then [digit_char n] else show_nat (n div 10) @ [digit_char (n mod 10)])"

declare show_nat.simps [simp del]

section \<open>Entity model (types.ts)\<close>

datatype CustomerType = DIRECT | PARENT

record Contact =
  contact_id :: string
  contact_name :: string
  email :: string
  phone :: string
  contact_isPrimary :: bool

text \<open>The optional fields \<open>street\<close>, \<open>latitude\<close> and \<open>longitude\<close> are \<open>None\<close> when undefined.\<close>

record Address =
  address_id :: string
  street :: "string option"
  latitude :: "string option"
  longitude :: "string option"
  city :: string
  state :: string
  zipCode :: string
  address_isPrimary :: bool
  isBilling :: bool
  isGateProperty :: bool

text \<open>
  \<open>parentId\<close> is \<open>None\<close> for both \<open>null\<close> and \<open>undefined\<close>: the code only ever compares it
  with a string by \<open>===\<close> or tests its truthiness, and neither tells the two apart.
  A \<open>Customer\<close> is a \<open>CustomerFormData\<close> with an id and a creation time.
\<close>

record CustomerFormData =
  type :: CustomerType
  name :: string
  accountNumber :: string
  isVip :: bool
  addresses :: "Address list"
  parentId :: "string option"
  contacts :: "Contact list"

record Customer = CustomerFormData +
  customer_id :: string
  createdAt :: string

text \<open>Truthiness of a \<open>string | null | undefined\<close> value.\<close>

definition truthy :: "string option \<Rightarrow> bool" where
  "truthy v = (case v of None \<Rightarrow> False | Some s \<Rightarrow> s \<noteq> [])"

section \<open>Validation rules (useCustomerData: validateCustomer)\<close>

definition checkAccountNumberUnique :: "Customer list \<Rightarrow> string \<Rightarrow> string option \<Rightarrow> bool" where
  "checkAccountNumberUnique customers accNo excludeId =
     (\<not> list_ex (\<lambda>c. accountNumber c = accNo \<and> Some (customer_id c) \<noteq> excludeId) customers)"

text \<open>\<open>!!s?.trim()\<close> on an optional string.\<close>

definition has_text :: "string option \<Rightarrow> bool" where
  "has_text v = (case v of None \<Rightarrow> False | Some s \<Rightarrow> trim s \<noteq> [])"

definition address_errors :: "nat \<times> Address \<Rightarrow> string list" where
  "address_errors p = (case p of (idx, addr) \<Rightarrow>
     (let hasStreet = has_text (street addr);
          hasLatLong = (has_text (latitude addr) \<and> has_text (longitude addr));
          label = ''Address #'' @ show_nat (idx + 1)
      in (if \<not> hasStreet \<and> \<not> hasLatLong
          then [label @ '': Must provide either Street Address OR Latitude + Longitude.''] else [])
       @ (if trim (city addr) = [] then [label @ '': City is required.''] else [])
       @ (if trim (state addr) = [] then [label @ '': State is required.''] else [])
       @ (if trim (zipCode addr) = [] then [label @ '': Zip Code is required.''] else [])))"

definition contact_errors :: "nat \<times> Contact \<Rightarrow> string list" where
  "contact_errors p = (case p of (idx, c) \<Rightarrow>
     (let label = ''Contact #'' @ show_nat (idx + 1)
      in (if trim (contact_name c) = [] then [label @ '': Name is required.''] else [])
       @ (if trim (email c) = [] then [label @ '': Email is required.''] else [])
       @ (if trim (phone c) = [] then [label @ '': Phone is required.''] else [])))"

definition basic_errors :: "CustomerFormData \<Rightarrow> string list" where
  "basic_errors data =
     (if trim (name data) = [] then [''Customer Name is required.''] else [])
   @ (if trim (accountNumber data) = [] then [''Account Number is required.''] else [])"

definition unique_errors :: "Customer list \<Rightarrow> CustomerFormData \<Rightarrow> string option \<Rightarrow> string list" where
  "unique_errors customers data existingId =
     (if \<not> checkAccountNumberUnique customers (accountNumber data) existingId
      then [''Account Number '' @ [CHR 0x27] @ accountNumber data @ [CHR 0x27] @ '' is already in use.'']
      else [])"

definition addresses_errors :: "CustomerFormData \<Rightarrow> string list" where
  "addresses_errors data =
     (if length (addresses data) = 0 then [''At least one address is required.'']
      else
        (let primaryCount = length (filter address_isPrimary (addresses data));
             billingCount = length (filter isBilling (addresses data))
         in (if primaryCount = 0
             then [''You must designate exactly one Primary Location address.''] else [])
          @ (if primaryCount > 1
             then [''Only one address can be marked as the Primary Location.''] else [])
          @ (if billingCount = 0
             then [''You must designate exactly one Billing Address.''] else [])
          @ (if billingCount > 1
             then [''Only one address can be marked as the Billing Address.''] else [])
          @ concat (map address_errors (enumerate 0 (addresses data)))))"

definition contacts_errors :: "CustomerFormData \<Rightarrow> string list" where
  "contacts_errors data =
     (if length (contacts data) = 0 then [''At least one contact person is required.'']
      else
        (let primaryContacts = length (filter contact_isPrimary (contacts data))
         in (if primaryContacts = 0
             then [''You must designate exactly one Primary Contact.''] else [])
          @ (if primaryContacts > 1
             then [''Only one contact can be marked as Primary.''] else [])
          @ concat (map contact_errors (enumerate 0 (contacts data)))))"

definition parent_errors :: "CustomerFormData \<Rightarrow> string list" where
  "parent_errors data =
     (if type data = PARENT \<and> truthy (parentId data)
      then [''A Parent Customer cannot have a Parent.''] else [])"

text \<open>
  \<open>validateCustomer\<close> pushes its messages onto one local array, block after block; the
  blocks above are the pushes of each block of the source, in its order. The stored
  customers are read and never written.
\<close>

definition validateCustomer :: "Customer list \<Rightarrow> CustomerFormData \<Rightarrow> string option \<Rightarrow> string list" where
  "validateCustomer customers data existingId =
     basic_errors data
   @ unique_errors customers data existingId
   @ addresses_errors data
   @ contacts_errors data
   @ parent_errors data"

section \<open>Hierarchy mutation engine (useCustomerData)\<close>

text \<open>
  Every operation takes the stored list \<open>prev\<close> and returns the list handed to
  \<open>setCustomers\<close>. \<open>Date.now()\<close> and \<open>new Date().toISOString()\<close> are the arguments
  \<open>now\<close> and \<open>isoTime\<close>.
\<close>

definition newCustomer :: "nat \<Rightarrow> string \<Rightarrow> CustomerFormData \<Rightarrow> Customer" where
  "newCustomer now isoTime data =
     \<lparr> type = type data, name = name data, accountNumber = accountNumber data,
       isVip = isVip data, addresses = addresses data,
       parentId = (if type data = DIRECT then parentId data else None),
       contacts = contacts data,
       customer_id = ''cust_'' @ show_nat now, createdAt = isoTime \<rparr>"

definition addCustomer ::
  "nat \<Rightarrow> string \<Rightarrow> Customer list \<Rightarrow> CustomerFormData \<Rightarrow> string list \<Rightarrow> Customer list" where
  "addCustomer now isoTime prev data childIdsToLink =
     (let updated = prev @ [newCustomer now isoTime data]
      in if type data = PARENT \<and> length childIdsToLink > 0
         then map (\<lambda>c. if customer_id c \<in> set childIdsToLink
                        then c\<lparr>parentId := Some (customer_id (newCustomer now isoTime data)), type := DIRECT\<rparr>
                        else c) updated
         else updated)"

definition batchAddCustomers :: "Customer list \<Rightarrow> Customer list \<Rightarrow> Customer list" where
  "batchAddCustomers prev newCustomers = prev @ newCustomers"

text \<open>The spread \<open>{ ...c, ...data }\<close>: every field of the form data replaces the stored one.\<close>

definition merge_data :: "Customer \<Rightarrow> CustomerFormData \<Rightarrow> Customer" where
  "merge_data c data =
     c\<lparr>type := type data, name := name data, accountNumber := accountNumber data,
       isVip := isVip data, addresses := addresses data, parentId := parentId data,
       contacts := contacts data\<rparr>"

definition updateCustomer ::
  "Customer list \<Rightarrow> string \<Rightarrow> CustomerFormData \<Rightarrow> string list \<Rightarrow> Customer list" where
  "updateCustomer prev i data childIdsToLink =
     (let updated = map (\<lambda>c. if customer_id c = i then merge_data c data else c) prev
      in if type data = PARENT
         then
           (let unassigned =
                  map (\<lambda>c. if parentId c = Some i \<and> customer_id c \<notin> set childIdsToLink
                            then c\<lparr>parentId := None, type := PARENT\<rparr> else c) updated
            in map (\<lambda>c. if customer_id c \<in> set childIdsToLink
                         then c\<lparr>parentId := Some i, type := DIRECT\<rparr> else c) unassigned)
         else updated)"

definition deleteCustomer :: "Customer list \<Rightarrow> string \<Rightarrow> Customer list" where
  "deleteCustomer prev i =
     (case find (\<lambda>c. customer_id c = i) prev of
        None \<Rightarrow> prev
      | Some customer \<Rightarrow>
          if type customer = PARENT
          then
            (let updatedList =
                   map (\<lambda>c. if parentId c = Some i
                             then c\<lparr>parentId := None, type := PARENT\<rparr> else c) prev
             in filter (\<lambda>c. customer_id c \<noteq> i) updatedList)
          else filter (\<lambda>c. customer_id c \<noteq> i) prev)"

section \<open>Batch import resolver (ImportCustomers)\<close>

record ImportRow =
  rowNumber :: nat
  customerName :: string
  row_accountNumber :: string
  row_address :: string
  row_zipCode :: string
  parentCustomerName :: string
  contactName :: string
  contactEmail :: string
  contactPhone :: string
  row_isPrimary :: bool

record ImportError =
  err_rowNumber :: nat
  reason :: string

record ProcessedBatch =
  validCustomers :: "Customer list"
  errors :: "ImportError list"

subsection \<open>Reading the file\<close>

text \<open>\<open>s.replace(/^"|"$/g, '')\<close>: one leading and one trailing double quote are removed.\<close>

definition strip_quotes :: "string \<Rightarrow> string" where
  "strip_quotes s =
     (let s1 = (case s of [] \<Rightarrow> [] | c # cs \<Rightarrow> if c = CHR 0x22 then cs else s)
      in if s1 \<noteq> [] \<and> last s1 = CHR 0x22 then butlast s1 else s1)"

text \<open>
  The loop of \<open>parseCSVLine\<close>: \<open>cur\<close> is \<open>line.substring(start, i)\<close>, the text of the
  field read so far.
\<close>

fun scan_line :: "bool \<Rightarrow> string \<Rightarrow> string \<Rightarrow> string list" where
  "scan_line inQuotes cur [] = [trim (strip_quotes cur)]"
| "scan_line inQuotes cur (c # cs) =
     (if c = CHR 0x22 then scan_line (\<not> inQuotes) (cur @ [c]) cs
      else if c = CHR '','' \<and> \<not> inQuotes
           then trim (strip_quotes cur) # scan_line inQuotes [] cs
      else scan_line inQuotes (cur @ [c]) cs)"

definition parseCSVLine :: "string \<Rightarrow> string list" where
  "parseCSVLine line = scan_line False [] line"

text \<open>\<open>text.split('\n')\<close>.\<close>

fun split_lines :: "string \<Rightarrow> string \<Rightarrow> string list" where
  "split_lines cur [] = [cur]"
| "split_lines cur (c # cs) =
     (if c = CHR 0x0A then cur # split_lines [] cs else split_lines (cur @ [c]) cs)"

definition dataRows :: "string \<Rightarrow> string list" where
  "dataRows text = filter (\<lambda>line. trim line \<noteq> []) (drop 1 (split_lines [] text))"

text \<open>
  One iteration of the parsing loop of \<open>processFile\<close>: the rows it pushes onto \<open>rawRows\<close>
  (none or one). \<open>cols[7] || ''\<close> and \<open>cols[8]?.toLowerCase()\<close> read past the end of a
  short array as \<open>undefined\<close>.
\<close>

definition parseRow :: "nat \<times> string \<Rightarrow> ImportRow list" where
  "parseRow p = (case p of (index, line) \<Rightarrow>
     (let cols = parseCSVLine line
      in if length cols \<ge> 7
         then [\<lparr> rowNumber = index + 2,
                 customerName = cols ! 0,
                 row_accountNumber = cols ! 1,
                 row_address = cols ! 2,
                 row_zipCode = cols ! 3,
                 parentCustomerName = cols ! 4,
                 contactName = cols ! 5,
                 contactEmail = cols ! 6,
                 contactPhone = (if 7 < length cols \<and> cols ! 7 \<noteq> [] then cols ! 7 else []),
                 row_isPrimary = (8 < length cols \<and>
                    (toLowerCase (cols ! 8) = ''true'' \<or> toLowerCase (cols ! 8) = ''yes''
                     \<or> cols ! 8 = ''1'')) \<rparr>]
         else []))"

definition rawRows :: "string list \<Rightarrow> ImportRow list" where
  "rawRows lines = concat (map parseRow (enumerate 0 lines))"

subsection \<open>Grouping by account number\<close>

text \<open>
  \<open>groupedByAccount\<close> is a plain object used as a dictionary, so a lookup also finds the
  members it inherits from \<open>Object.prototype\<close>. For an account number that names one of
  them, \<open>groupedByAccount[acc]\<close> is truthy, no array is stored, and \<open>.push\<close> is called on
  a value that has none: the call throws a \<open>TypeError\<close>.
\<close>

datatype error = TypeError

definition prototype_keys :: "string list" where
  "prototype_keys =
     [''constructor'', ''hasOwnProperty'', ''isPrototypeOf'', ''propertyIsEnumerable'',
      ''toLocaleString'', ''toString'', ''valueOf'', ''__proto__'',
      ''__defineGetter__'', ''__defineSetter__'', ''__lookupGetter__'', ''__lookupSetter__'']"

text \<open>The own properties of the object, in insertion order, each with its array of rows.\<close>

fun push_group :: "string \<Rightarrow> ImportRow \<Rightarrow> (string \<times> ImportRow list) list
    \<Rightarrow> (string \<times> ImportRow list) list" where
  "push_group acc row [] = [(acc, [row])]"
| "push_group acc row ((k, rs) # g) =
     (if k = acc then (k, rs @ [row]) # g else (k, rs) # push_group acc row g)"

fun groupByAccount :: "ImportRow list \<Rightarrow> (string \<times> ImportRow list) list
    \<Rightarrow> error + (string \<times> ImportRow list) list" where
  "groupByAccount [] g = Inr g"
| "groupByAccount (row # rows) g =
     (let acc = row_accountNumber row
      in if acc \<in> set prototype_keys then Inl TypeError
         else groupByAccount rows (push_group acc row g))"

text \<open>
  \<open>Object.keys\<close> lists the keys that are array indices first, in ascending numeric order,
  and then the other keys in insertion order. An array index is the canonical decimal text
  of a number below \<open>2^32 - 1\<close>.
\<close>

definition is_digit :: "char \<Rightarrow> bool" where
  "is_digit c = (c \<in> set ''0123456789'')"

definition digit_val :: "char \<Rightarrow> nat" where
  "digit_val c = (case map_of (zip ''0123456789'' [0, 1, 2, 3, 4, 5, 6, 7, 8, 9]) c of
                    Some d \<Rightarrow> d | None \<Rightarrow> 0)"

definition read_nat :: "string \<Rightarrow> nat" where
  "read_nat s = foldl (\<lambda>n c. 10 * n + digit_val c) 0 s"

definition array_index :: "string \<Rightarrow> nat option" where
  "array_index s =
     (if s \<noteq> [] \<and> list_all is_digit s \<and> (s = ''0'' \<or> take 1 s \<noteq> ''0'')
         \<and> read_nat s \<le> 4294967294
      then Some (read_nat s) else None)"

definition index_of_key :: "string \<times> ImportRow list \<Rightarrow> nat" where
  "index_of_key g = (case array_index (fst g) of Some n \<Rightarrow> n | None \<Rightarrow> 0)"

definition object_keys_order :: "(string \<times> ImportRow list) list \<Rightarrow> (string \<times> ImportRow list) list" where
  "object_keys_order g =
     sort_key index_of_key (filter (\<lambda>p. array_index (fst p) \<noteq> None) g)
     @ filter (\<lambda>p. array_index (fst p) = None) g"

subsection \<open>The two passes of analyzeRows\<close>

text \<open>
  The clock and the random generator are inputs. For the group of account number \<open>a\<close>:
  \<open>stamp1 env a\<close> and \<open>stamp2 env a\<close> are the texts
  \<open>${Date.now()}_${Math.random().toString(36).substr(2, 5)}\<close> of the first and of the
  second pass, \<open>err_now\<close> and \<open>addr_now\<close> the values of \<open>Date.now()\<close> in \<open>cust_err_\<close> and
  \<open>addr_\<close>, and \<open>created_iso\<close> the text of \<open>new Date().toISOString()\<close>.
\<close>

record ImportEnv =
  stamp1 :: "string \<Rightarrow> string"
  stamp2 :: "string \<Rightarrow> string"
  err_now :: "string \<Rightarrow> nat"
  addr_now :: "string \<Rightarrow> nat"
  created_iso :: "string \<Rightarrow> string"

definition existing_parent_map :: "Customer list \<Rightarrow> (string \<rightharpoonup> string)" where
  "existing_parent_map existingParents =
     fold (\<lambda>p m. m(toLowerCase (name p) \<mapsto> customer_id p)) existingParents Map.empty"

text \<open>First pass, one group: a group whose first row names no parent is registered by name.\<close>

definition registerParent :: "ImportEnv \<Rightarrow> string \<times> ImportRow list
    \<Rightarrow> (string \<rightharpoonup> string) \<Rightarrow> (string \<rightharpoonup> string)" where
  "registerParent env g parentNameMap = (case g of (accNum, groupRows) \<Rightarrow>
     (case groupRows of
        [] \<Rightarrow> parentNameMap
      | firstRow # _ \<Rightarrow>
          (let isParent = (parentCustomerName firstRow = [])
           in if isParent
              then (let customerId = ''cust_import_'' @ stamp1 env accNum
                    in if customerName firstRow \<noteq> []
                       then parentNameMap(toLowerCase (customerName firstRow) \<mapsto> customerId)
                       else parentNameMap)
              else parentNameMap)))"

text \<open>\<open>groupRows.forEach(r => errors.push({ rowNumber: r.rowNumber, reason }))\<close>.\<close>

definition reject :: "ImportRow list \<Rightarrow> string \<Rightarrow> ImportError list" where
  "reject groupRows why = map (\<lambda>r. \<lparr> err_rowNumber = rowNumber r, reason = why \<rparr>) groupRows"

definition quoted :: "string \<Rightarrow> string" where
  "quoted s = [CHR 0x27] @ s @ [CHR 0x27]"

definition buildContacts :: "string \<Rightarrow> ImportRow list \<Rightarrow> Contact list" where
  "buildContacts accNum groupRows =
     map (\<lambda>p. case p of (idx, row) \<Rightarrow>
            \<lparr> contact_id = ''cont_imp_'' @ accNum @ ''_'' @ show_nat idx,
              contact_name = contactName row,
              email = contactEmail row,
              phone = contactPhone row,
              contact_isPrimary = row_isPrimary row \<rparr>)
         (enumerate 0 groupRows)"

text \<open>Step 4 of the second pass, after the contacts are known to be complete.\<close>

definition resolvePrimary :: "ImportRow list \<Rightarrow> Contact list \<Rightarrow> ImportError list + Contact list" where
  "resolvePrimary groupRows validContacts =
     (if length validContacts = 1
      then Inr (validContacts[0 := (validContacts ! 0)\<lparr>contact_isPrimary := True\<rparr>])
      else if length validContacts > 1
      then (let primaryCount = length (filter contact_isPrimary validContacts)
            in if primaryCount = 0
               then Inl (reject groupRows ''Multiple contacts found but none marked as Primary.'')
               else if primaryCount > 1
               then Inl (reject groupRows ''Multiple contacts marked as Primary. Only one allowed.'')
               else Inr validContacts)
      else Inl (reject groupRows ''No valid contacts found.''))"

definition primaryAddress :: "ImportEnv \<Rightarrow> string \<Rightarrow> ImportRow \<Rightarrow> Address" where
  "primaryAddress env accNum firstRow =
     \<lparr> address_id = ''addr_'' @ show_nat (addr_now env accNum) @ ''_imp'',
       street = Some (row_address firstRow),
       latitude = None,
       longitude = None,
       city = ''Imported City'',
       state = ''Imported State'',
       zipCode = row_zipCode firstRow,
       address_isPrimary = True,
       isBilling = True,
       isGateProperty = False \<rparr>"

text \<open>Steps 5 and 6 of the second pass.\<close>

definition buildCustomer :: "ImportEnv \<Rightarrow> (string \<rightharpoonup> string) \<Rightarrow> string \<Rightarrow> ImportRow list
    \<Rightarrow> ImportRow \<Rightarrow> Contact list \<Rightarrow> ImportError list + Customer" where
  "buildCustomer env parentNameMap accNum groupRows firstRow validContacts =
     (let isParent = (parentCustomerName firstRow = []);
          parentId0 = (if isParent then None
                       else parentNameMap (toLowerCase (parentCustomerName firstRow)))
      in if \<not> isParent \<and> \<not> truthy parentId0
         then Inl (reject groupRows (''Parent Customer '' @ quoted (parentCustomerName firstRow)
                                      @ '' not found (in system or file).''))
         else
           (let finalId0 = (if isParent then parentNameMap (toLowerCase (customerName firstRow))
                            else Some (''cust_import_'' @ stamp2 env accNum));
                finalId = (case finalId0 of
                             None \<Rightarrow> ''cust_err_'' @ show_nat (err_now env accNum)
                           | Some v \<Rightarrow> if v = [] then ''cust_err_'' @ show_nat (err_now env accNum)
                                       else v)
            in Inr \<lparr> type = (if isParent then PARENT else DIRECT),
                     name = customerName firstRow,
                     accountNumber = row_accountNumber firstRow,
                     isVip = False,
                     addresses = [primaryAddress env accNum firstRow],
                     parentId = (if isParent then None else parentId0),
                     contacts = validContacts,
                     customer_id = finalId,
                     createdAt = created_iso env accNum \<rparr>))"

text \<open>
  The body of the second loop for one group: either the rejection entries it pushes before
  its early return, or the customer it pushes at its end. \<open>uniqueNames.size\<close> is the number
  of distinct names. A group always has a first row; the empty case is never reached.
\<close>

definition analyzeGroup :: "ImportEnv \<Rightarrow> Customer list \<Rightarrow> (string \<rightharpoonup> string)
    \<Rightarrow> string \<times> ImportRow list \<Rightarrow> ImportError list + Customer" where
  "analyzeGroup env existingCustomers parentNameMap g = (case g of (accNum, groupRows) \<Rightarrow>
     (case groupRows of
        [] \<Rightarrow> Inl []
      | firstRow # _ \<Rightarrow>
          if customerName firstRow = []
          then Inl (reject groupRows ''Missing Customer Name'')
          else if length (remdups (map customerName groupRows)) > 1
          then Inl (reject groupRows (''Duplicate Account Number '' @ quoted accNum
                                       @ '' used for different customer names.''))
          else if list_ex (\<lambda>c. accountNumber c = accNum) existingCustomers
          then Inl (reject groupRows (''Account Number '' @ quoted accNum
                                       @ '' already exists in the system.''))
          else
            (let contacts0 = buildContacts accNum groupRows;
                 validContacts = filter (\<lambda>c. contact_name c \<noteq> [] \<and> email c \<noteq> []) contacts0
             in if length validContacts \<noteq> length contacts0
                then Inl (reject (filter (\<lambda>r. contactName r = [] \<or> contactEmail r = []) groupRows)
                            ''Missing Contact Name or Email.'')
                else (case resolvePrimary groupRows validContacts of
                        Inl es \<Rightarrow> Inl es
                      | Inr finalContacts \<Rightarrow>
                          buildCustomer env parentNameMap accNum groupRows firstRow finalContacts))))"

definition secondPass_step :: "ImportEnv \<Rightarrow> Customer list \<Rightarrow> (string \<rightharpoonup> string)
    \<Rightarrow> string \<times> ImportRow list \<Rightarrow> ProcessedBatch \<Rightarrow> ProcessedBatch" where
  "secondPass_step env existingCustomers parentNameMap g batch =
     (case analyzeGroup env existingCustomers parentNameMap g of
        Inl es \<Rightarrow> batch\<lparr>errors := errors batch @ es\<rparr>
      | Inr c \<Rightarrow> batch\<lparr>validCustomers := validCustomers batch @ [c]\<rparr>)"

text \<open>
  \<open>analyzeRows\<close> returns the value it hands to \<open>setProcessedData\<close>, or the exception that
  ends it. \<open>Array.prototype.sort\<close> is stable, as \<open>sort_key\<close> is.
\<close>

definition analyzeRows :: "ImportEnv \<Rightarrow> Customer list \<Rightarrow> Customer list \<Rightarrow> ImportRow list
    \<Rightarrow> error + ProcessedBatch" where
  "analyzeRows env existingCustomers existingParents rows =
     (case groupByAccount rows [] of
        Inl e \<Rightarrow> Inl e
      | Inr groupedByAccount \<Rightarrow>
          (let groups = object_keys_order groupedByAccount;
               parentNameMap = fold (registerParent env) groups (existing_parent_map existingParents);
               batch = fold (secondPass_step env existingCustomers parentNameMap) groups
                         \<lparr> validCustomers = [], errors = [] \<rparr>
           in Inr (batch\<lparr>errors := sort_key err_rowNumber (errors batch)\<rparr>)))"

definition processFile :: "ImportEnv \<Rightarrow> Customer list \<Rightarrow> Customer list \<Rightarrow> string
    \<Rightarrow> error + ProcessedBatch" where
  "processFile env existingCustomers existingParents text =
     analyzeRows env existingCustomers existingParents (rawRows (dataRows text))"

section \<open>Properties: vocabulary\<close>



text \<open>
  Hierarchy depth: a customer whose id is the \<open>parentId\<close> of another customer has no
  \<open>parentId\<close> itself.
\<close>

definition depth_ok :: "Customer list \<Rightarrow> bool" where
  "depth_ok cs = (\<forall>c\<in>set cs. \<forall>d\<in>set cs.
      customer_id d \<noteq> customer_id c \<and> parentId d = Some (customer_id c) \<longrightarrow> parentId c = None)"

text \<open>
  What the form component checks before it calls the engine: the ids offered for linking
  are the parent of no stored customer (\<open>childless\<close>), a chosen parent has no parent
  (\<open>top_level\<close>), and a new id occurs nowhere in the store (\<open>unused_id\<close>). \<open>cross_ok\<close> is
  the depth condition between the customers of two lists.
\<close>

definition childless :: "string list \<Rightarrow> Customer list \<Rightarrow> bool" where
  "childless ks cs = (\<forall>d\<in>set cs. \<forall>k\<in>set ks. parentId d \<noteq> Some k)"

definition top_level :: "string option \<Rightarrow> Customer list \<Rightarrow> bool" where
  "top_level p cs = (\<forall>c\<in>set cs. Some (customer_id c) = p \<longrightarrow> parentId c = None)"

definition unused_id :: "string \<Rightarrow> Customer list \<Rightarrow> bool" where
  "unused_id n cs = (\<forall>c\<in>set cs. customer_id c \<noteq> n \<and> parentId c \<noteq> Some n)"

definition cross_ok :: "Customer list \<Rightarrow> Customer list \<Rightarrow> bool" where
  "cross_ok cs ds = (\<forall>c\<in>set cs. \<forall>d\<in>set ds.
      customer_id d \<noteq> customer_id c \<and> parentId d = Some (customer_id c) \<longrightarrow> parentId c = None)"

text \<open>The three record updates of the engine, as functions of one record.\<close>

definition unlink_from :: "string \<Rightarrow> Customer \<Rightarrow> Customer" where
  "unlink_from i c = (if parentId c = Some i then c\<lparr>parentId := None, type := PARENT\<rparr> else c)"

definition link_to :: "string \<Rightarrow> string list \<Rightarrow> Customer \<Rightarrow> Customer" where
  "link_to n ks c =
     (if customer_id c \<in> set ks then c\<lparr>parentId := Some n, type := DIRECT\<rparr> else c)"

definition relink :: "string \<Rightarrow> CustomerFormData \<Rightarrow> string list \<Rightarrow> Customer \<Rightarrow> Customer" where
  "relink i data ks c =
     (let c1 = (if customer_id c = i then merge_data c data else c);
          c2 = (if parentId c1 = Some i \<and> customer_id c1 \<notin> set ks
                then c1\<lparr>parentId := None, type := PARENT\<rparr> else c1)
      in if customer_id c2 \<in> set ks then c2\<lparr>parentId := Some i, type := DIRECT\<rparr> else c2)"

subsection \<open>Sample data\<close>

definition sample_address :: Address where
  "sample_address =
     \<lparr> address_id = ''addr_1'', street = Some ''1 Main St'', latitude = None, longitude = None,
       city = ''Springfield'', state = ''IL'', zipCode = ''62701'',
       address_isPrimary = True, isBilling = True, isGateProperty = False \<rparr>"

definition sample_contact :: Contact where
  "sample_contact =
     \<lparr> contact_id = ''cont_1'', contact_name = ''Ann'', email = ''ann@acme.test'',
       phone = ''555-0100'', contact_isPrimary = True \<rparr>"

definition sample_form :: "string \<Rightarrow> CustomerType \<Rightarrow> string option \<Rightarrow> CustomerFormData" where
  "sample_form n t p =
     \<lparr> type = t, name = n, accountNumber = ''ACC-'' @ n, isVip = False,
       addresses = [sample_address], parentId = p, contacts = [sample_contact] \<rparr>"

definition sample_customer :: "string \<Rightarrow> CustomerType \<Rightarrow> string option \<Rightarrow> Customer" where
  "sample_customer i t p =
     \<lparr> type = t, name = i, accountNumber = ''ACC-'' @ i, isVip = False,
       addresses = [sample_address], parentId = p, contacts = [sample_contact],
       customer_id = i, createdAt = ''2024-01-01T00:00:00.000Z'' \<rparr>"


text \<open>A parent \<open>a\<close> with one child \<open>b\<close>, and an independent customer \<open>c\<close>.\<close>

definition sample_population :: "Customer list" where
  "sample_population =
     [sample_customer ''a'' PARENT None, sample_customer ''b'' DIRECT (Some ''a''),
      sample_customer ''c'' PARENT None]"

subsection \<open>Import resolver\<close>

text \<open>
  The group of an account number: the rows of the batch that carry it, in batch order.
  \<open>grouped g rows\<close> says that \<open>g\<close> holds exactly the non-empty groups of \<open>rows\<close>, each
  under its account number, once.
\<close>

definition group_of :: "ImportRow list \<Rightarrow> string \<Rightarrow> ImportRow list" where
  "group_of rows a = filter (\<lambda>r. row_accountNumber r = a) rows"

definition grouped :: "(string \<times> ImportRow list) list \<Rightarrow> ImportRow list \<Rightarrow> bool" where
  "grouped g seen \<longleftrightarrow>
     distinct (map fst g)
     \<and> (\<forall>a. map_of g a = (if group_of seen a = [] then None else Some (group_of seen a)))"

text \<open>What one group adds to each of the two output lists.\<close>

definition accepted_of :: "ImportEnv \<Rightarrow> Customer list \<Rightarrow> (string \<rightharpoonup> string)
    \<Rightarrow> string \<times> ImportRow list \<Rightarrow> Customer list" where
  "accepted_of env ex m g = (case analyzeGroup env ex m g of Inl es \<Rightarrow> [] | Inr c \<Rightarrow> [c])"

definition rejected_of :: "ImportEnv \<Rightarrow> Customer list \<Rightarrow> (string \<rightharpoonup> string)
    \<Rightarrow> string \<times> ImportRow list \<Rightarrow> ImportError list" where
  "rejected_of env ex m g = (case analyzeGroup env ex m g of Inl es \<Rightarrow> es | Inr c \<Rightarrow> [])"

text \<open>The name map after the first pass.\<close>

definition name_map :: "ImportEnv \<Rightarrow> Customer list \<Rightarrow> ImportRow list \<Rightarrow> (string \<rightharpoonup> string)" where
  "name_map env existingParents rows =
     (case groupByAccount rows [] of
        Inl e \<Rightarrow> Map.empty
      | Inr g \<Rightarrow> fold (registerParent env) (object_keys_order g) (existing_parent_map existingParents))"


definition missing_contact :: "ImportRow \<Rightarrow> bool" where
  "missing_contact r = (contactName r = [] \<or> contactEmail r = [])"

text \<open>The rejection entries with the row number of a row, and the accepted customers with
  its account number.\<close>

definition entries_for :: "ProcessedBatch \<Rightarrow> ImportRow \<Rightarrow> ImportError list" where
  "entries_for out r = filter (\<lambda>e. err_rowNumber e = rowNumber r) (errors out)"

definition customers_for :: "ProcessedBatch \<Rightarrow> ImportRow \<Rightarrow> Customer list" where
  "customers_for out r = filter (\<lambda>c. accountNumber c = row_accountNumber r) (validCustomers out)"




subsection \<open>Sample batches\<close>

definition sample_env :: ImportEnv where
  "sample_env =
     \<lparr> stamp1 = (\<lambda>a. ''1700000000000_p'' @ a), stamp2 = (\<lambda>a. ''1700000000001_d'' @ a),
       err_now = (\<lambda>a. 1700000000002), addr_now = (\<lambda>a. 1700000000003),
       created_iso = (\<lambda>a. ''2023-11-14T22:13:20.000Z'') \<rparr>"

definition sample_row :: "nat \<Rightarrow> string \<Rightarrow> string \<Rightarrow> string \<Rightarrow> string \<Rightarrow> string \<Rightarrow> bool \<Rightarrow> ImportRow" where
  "sample_row n cname acc parent contact mail primary =
     \<lparr> rowNumber = n, customerName = cname, row_accountNumber = acc,
       row_address = ''1 Main St'', row_zipCode = ''62701'', parentCustomerName = parent,
       contactName = contact, contactEmail = mail, contactPhone = ''555-0100'',
       row_isPrimary = primary \<rparr>"

text \<open>Two rows of one account, the second without a contact email.\<close>

definition half_missing_batch :: "ImportRow list" where
  "half_missing_batch =
     [sample_row 2 ''Acme'' ''A-1'' [] ''Ann'' ''ann@acme.test'' True,
      sample_row 3 ''Acme'' ''A-1'' [] ''Bob'' [] False]"

text \<open>The same two rows, and a third row that is accepted.\<close>

definition mixed_batch :: "ImportRow list" where
  "mixed_batch =
     [sample_row 2 ''Acme'' ''A-1'' [] ''Ann'' ''ann@acme.test'' True,
      sample_row 3 ''Acme'' ''A-1'' [] ''Bob'' [] False,
      sample_row 4 ''Beta'' ''B-2'' [] ''Cy'' ''cy@beta.test'' False]"





text \<open>A file with a short row, a row of seven columns and a row of nine.\<close>

definition sample_csv :: string where
  "sample_csv =
     ''Customer Name,Account Number,Address,Zip Code,Parent Customer Name,Contact Name,Contact Email,Contact Phone,Is Primary Contact''
     @ [CHR 0x0A] @ ''too,short''
     @ [CHR 0x0A] @ ''Acme,A-1,1 Main St,62701,,Ann,ann@acme.test''
     @ [CHR 0x0A] @ ''Beta,B-2,2 Side St,62702,,Bo,bo@beta.test,555-0101,YES''"

section \<open>Validation rules: soundness and completeness\<close>

lemmas sample_defs = sample_population_def sample_customer_def sample_form_def
  sample_address_def sample_contact_def

lemmas validate_defs = validateCustomer_def basic_errors_def unique_errors_def
  addresses_errors_def contacts_errors_def parent_errors_def checkAccountNumberUnique_def
  address_errors_def contact_errors_def has_text_def truthy_def trim_def is_space_def

















lemma show_nat_digit: "n < 10 \<Longrightarrow> show_nat n = [digit_char n]"
  by (simp add: show_nat.simps)


section \<open>Hierarchy mutation engine: properties\<close>

lemma find_None_ids: "i \<notin> customer_id ` set cs \<Longrightarrow> find (\<lambda>c. customer_id c = i) cs = None"
  by (auto simp: find_None_iff)

lemma find_distinct_id:
  "distinct (map customer_id cs) \<Longrightarrow> p \<in> set cs
     \<Longrightarrow> find (\<lambda>c. customer_id c = customer_id p) cs = Some p"
  by (induction cs) (auto simp: rev_image_eqI)

lemma delete_parent_eq:
  assumes "find (\<lambda>c. customer_id c = i) prev = Some p" and "type p = PARENT"
  shows "deleteCustomer prev i = map (unlink_from i) (filter (\<lambda>c. customer_id c \<noteq> i) prev)"
proof -
  have "filter (\<lambda>c. customer_id c \<noteq> i) (map (unlink_from i) prev)
        = map (unlink_from i) (filter (\<lambda>c. customer_id c \<noteq> i) prev)"
    by (induction prev) (auto simp: unlink_from_def)
  then show ?thesis using assms
    by (simp add: deleteCustomer_def unlink_from_def [abs_def])
qed

text \<open>
  Claim C10. Deleting an id that no stored customer has leaves the store as it is; the
  function returns before it touches the store and has no failing branch.
\<close>

theorem delete_missing_is_noop:
  "i \<notin> customer_id ` set prev \<Longrightarrow> deleteCustomer prev i = prev"
  by (simp add: deleteCustomer_def find_None_ids)

theorem delete_missing_is_noop_witness:
  "''ghost'' \<notin> customer_id ` set sample_population
   \<and> deleteCustomer sample_population ''ghost'' = sample_population"
proof -
  have h: "''ghost'' \<notin> customer_id ` set sample_population"
    by (simp add: sample_defs)
  show ?thesis using h delete_missing_is_noop [OF h] by simp
qed

text \<open>
  Claim C5. In a store keyed by id, deleting the id of a PARENT customer gives the stored
  list without that record, in which every record that had this id as \<open>parentId\<close> has
  \<open>parentId = null\<close> and type PARENT, with its other fields as before; no other record
  is removed, and the records that did not point to the deleted id are unchanged.
\<close>

theorem delete_parent_cascade:
  assumes "distinct (map customer_id prev)" and "p \<in> set prev" and "customer_id p = i"
    and "type p = PARENT"
  shows "deleteCustomer prev i = map (unlink_from i) (filter (\<lambda>c. customer_id c \<noteq> i) prev)
    \<and> (\<forall>c\<in>set prev. customer_id c \<noteq> i \<and> parentId c = Some i \<longrightarrow>
           c\<lparr>parentId := None, type := PARENT\<rparr> \<in> set (deleteCustomer prev i))
    \<and> (\<forall>c\<in>set prev. customer_id c \<noteq> i \<and> parentId c \<noteq> Some i \<longrightarrow>
           c \<in> set (deleteCustomer prev i))
    \<and> (\<forall>c\<in>set (deleteCustomer prev i). customer_id c \<noteq> i \<and> parentId c \<noteq> Some i)
    \<and> map customer_id (deleteCustomer prev i) = filter (\<lambda>j. j \<noteq> i) (map customer_id prev)"
proof -
  have f: "find (\<lambda>c. customer_id c = i) prev = Some p"
    using find_distinct_id [OF assms(1,2)] assms(3) by simp
  have eq: "deleteCustomer prev i = map (unlink_from i) (filter (\<lambda>c. customer_id c \<noteq> i) prev)"
    by (rule delete_parent_eq [OF f assms(4)])
  have a: "\<forall>c\<in>set prev. customer_id c \<noteq> i \<and> parentId c = Some i \<longrightarrow>
           c\<lparr>parentId := None, type := PARENT\<rparr> \<in> set (deleteCustomer prev i)"
    unfolding eq by (force simp: unlink_from_def)
  have b: "\<forall>c\<in>set prev. customer_id c \<noteq> i \<and> parentId c \<noteq> Some i \<longrightarrow>
           c \<in> set (deleteCustomer prev i)"
    unfolding eq by (force simp: unlink_from_def)
  have c: "\<forall>c\<in>set (deleteCustomer prev i). customer_id c \<noteq> i \<and> parentId c \<noteq> Some i"
    unfolding eq by (auto simp: unlink_from_def)
  have d: "map customer_id (deleteCustomer prev i) = filter (\<lambda>j. j \<noteq> i) (map customer_id prev)"
    unfolding eq by (induction prev) (auto simp: unlink_from_def)
  show ?thesis using eq a b c d by (intro conjI)
qed

theorem delete_parent_cascade_witness:
  "distinct (map customer_id sample_population)
   \<and> sample_customer ''a'' PARENT None \<in> set sample_population
   \<and> deleteCustomer sample_population ''a''
       = [sample_customer ''b'' PARENT None, sample_customer ''c'' PARENT None]"
proof -
  have h1: "distinct (map customer_id sample_population)"
    by (simp add: sample_defs)
  have h2: "sample_customer ''a'' PARENT None \<in> set sample_population"
    by (simp add: sample_population_def)
  have h3: "customer_id (sample_customer ''a'' PARENT None) = ''a''"
    "type (sample_customer ''a'' PARENT None) = PARENT"
    by (simp_all add: sample_customer_def)
  note t = delete_parent_cascade [OF h1 h2 h3, THEN conjunct1]
  have "deleteCustomer sample_population ''a''
       = [sample_customer ''b'' PARENT None, sample_customer ''c'' PARENT None]"
    unfolding t by (simp add: sample_defs unlink_from_def)
  with h1 h2 show ?thesis by (intro conjI)
qed

lemma updateCustomer_parent_map:
  "type data = PARENT \<Longrightarrow> updateCustomer prev i data ks = map (relink i data ks) prev"
  by (simp add: updateCustomer_def relink_def Let_def comp_def)

lemma relink_idem: "relink i data ks (relink i data ks c) = relink i data ks c"
  by (auto simp: relink_def merge_data_def Let_def)

text \<open>
  Claim C7. A second call of \<open>updateCustomer\<close> with the same arguments changes nothing:
  the store after two calls is the store after one, so every record has the same
  \<open>parentId\<close> and type.
\<close>

theorem update_twice_same:
  "updateCustomer (updateCustomer prev i data ks) i data ks = updateCustomer prev i data ks
   \<and> map (\<lambda>c. (customer_id c, parentId c, type c))
         (updateCustomer (updateCustomer prev i data ks) i data ks)
     = map (\<lambda>c. (customer_id c, parentId c, type c)) (updateCustomer prev i data ks)"
proof -
  have "updateCustomer (updateCustomer prev i data ks) i data ks = updateCustomer prev i data ks"
  proof (cases "type data")
    case DIRECT
    then show ?thesis by (simp add: updateCustomer_def comp_def merge_data_def)
  next
    case PARENT
    then show ?thesis by (simp add: updateCustomer_parent_map relink_idem)
  qed
  then show ?thesis by simp
qed

text \<open>
  Claim C8. With a DIRECT candidate, \<open>updateCustomer\<close> rewrites the records that have the
  given id and nothing else: the store keeps its length and order, every record with
  another id is the record it was, no record is unlinked from the id, and
  \<open>childIdsToLink\<close> is not looked at.
\<close>

theorem update_direct_frame:
  assumes "type data = DIRECT"
  shows "updateCustomer prev i data ks
           = map (\<lambda>c. if customer_id c = i then merge_data c data else c) prev
    \<and> length (updateCustomer prev i data ks) = length prev
    \<and> (\<forall>n<length prev. customer_id (prev ! n) \<noteq> i \<longrightarrow> updateCustomer prev i data ks ! n = prev ! n)
    \<and> updateCustomer prev i data ks = updateCustomer prev i data []"
  using assms by (simp add: updateCustomer_def)

theorem update_direct_frame_witness:
  "type (sample_form ''c2'' DIRECT (Some ''a'')) = DIRECT
   \<and> updateCustomer sample_population ''c'' (sample_form ''c2'' DIRECT (Some ''a'')) [''b'']
       = [sample_customer ''a'' PARENT None, sample_customer ''b'' DIRECT (Some ''a''),
          (sample_customer ''c'' DIRECT (Some ''a''))\<lparr>name := ''c2'', accountNumber := ''ACC-c2''\<rparr>]"
proof -
  have h: "type (sample_form ''c2'' DIRECT (Some ''a'')) = DIRECT"
    by (simp add: sample_form_def)
  note t = update_direct_frame [OF h, of sample_population "''c''" "[''b'']", THEN conjunct1]
  have "updateCustomer sample_population ''c'' (sample_form ''c2'' DIRECT (Some ''a'')) [''b'']
       = [sample_customer ''a'' PARENT None, sample_customer ''b'' DIRECT (Some ''a''),
          (sample_customer ''c'' DIRECT (Some ''a''))\<lparr>name := ''c2'', accountNumber := ''ACC-c2''\<rparr>]"
    unfolding t by (simp add: sample_defs merge_data_def)
  with h show ?thesis by (intro conjI)
qed

subsection \<open>Hierarchy depth\<close>

lemma delete_subset:
  "c' \<in> set (deleteCustomer prev i) \<Longrightarrow>
     \<exists>c\<in>set prev. customer_id c' = customer_id c \<and> (parentId c' = None \<or> c' = c)"
  by (auto simp: deleteCustomer_def Let_def split: option.splits if_splits)

lemma depth_ok_delete:
  assumes "depth_ok prev"
  shows "depth_ok (deleteCustomer prev i)"
  unfolding depth_ok_def
proof (intro ballI impI, elim conjE)
  fix c' d'
  assume c': "c' \<in> set (deleteCustomer prev i)" and d': "d' \<in> set (deleteCustomer prev i)"
    and ne: "customer_id d' \<noteq> customer_id c'" and p: "parentId d' = Some (customer_id c')"
  from delete_subset [OF c'] obtain c where c: "c \<in> set prev" "customer_id c' = customer_id c"
     "parentId c' = None \<or> c' = c" by blast
  from delete_subset [OF d'] obtain d where d: "d \<in> set prev" "customer_id d' = customer_id d"
     "parentId d' = None \<or> d' = d" by blast
  from p d have "d' = d" by auto
  with p c ne d have "parentId c = None" using assms unfolding depth_ok_def by metis
  with c show "parentId c' = None" by auto
qed

lemma depth_ok_batchAdd:
  "depth_ok (batchAddCustomers prev news) \<longleftrightarrow>
     depth_ok prev \<and> depth_ok news \<and> cross_ok prev news \<and> cross_ok news prev"
  unfolding depth_ok_def cross_ok_def batchAddCustomers_def set_append by blast

lemma depth_ok_update_direct:
  assumes inv: "depth_ok prev" and t: "type data = DIRECT"
    and a: "top_level (parentId data) prev" "parentId data \<noteq> Some i"
    and b: "parentId data \<noteq> None \<longrightarrow> childless [i] prev"
  shows "depth_ok (updateCustomer prev i data ks)"
proof -
  let ?f = "\<lambda>c. if customer_id c = i then merge_data c data else c"
  have eq: "updateCustomer prev i data ks = map ?f prev"
    using t by (simp add: updateCustomer_def)
  show ?thesis unfolding eq depth_ok_def
  proof (intro ballI impI, elim conjE)
    fix c' d'
    assume c': "c' \<in> set (map ?f prev)" and d': "d' \<in> set (map ?f prev)"
       and ne: "customer_id d' \<noteq> customer_id c'" and p: "parentId d' = Some (customer_id c')"
    from c' obtain c where c: "c \<in> set prev" "c' = ?f c" by auto
    from d' obtain d where d: "d \<in> set prev" "d' = ?f d" by auto
    have idc: "customer_id c' = customer_id c" using c by (simp add: merge_data_def)
    have idd: "customer_id d' = customer_id d" using d by (simp add: merge_data_def)
    show "parentId c' = None"
    proof (cases "customer_id d = i")
      case True
      then have "parentId data = Some (customer_id c)" using p d idc by (simp add: merge_data_def)
      moreover from this a(2) have "customer_id c \<noteq> i" by auto
      ultimately show ?thesis using a(1) c unfolding top_level_def by auto
    next
      case False
      then have pd: "parentId d = Some (customer_id c)" using p d idc by simp
      show ?thesis
      proof (cases "customer_id c = i")
        case True
        with pd d b have "parentId data = None" unfolding childless_def by auto
        with True c show ?thesis by (simp add: merge_data_def)
      next
        case False
        with c have "c' = c" by simp
        moreover have "parentId c = None"
          using inv c(1) d(1) pd ne idc idd unfolding depth_ok_def by metis
        ultimately show ?thesis by simp
      qed
    qed
  qed
qed

lemma relink_id [simp]: "customer_id (relink i data ks c) = customer_id c"
  by (simp add: relink_def merge_data_def Let_def)

lemma relink_linked: "customer_id c \<in> set ks \<Longrightarrow> parentId (relink i data ks c) = Some i"
  by (auto simp: relink_def Let_def merge_data_def)

lemma relink_self:
  "customer_id c = i \<Longrightarrow> i \<notin> set ks \<Longrightarrow> parentId data = None
     \<Longrightarrow> parentId (relink i data ks c) = None"
  by (auto simp: relink_def Let_def merge_data_def)

lemma relink_other:
  "customer_id c \<notin> set ks \<Longrightarrow> customer_id c \<noteq> i \<Longrightarrow> relink i data ks c = unlink_from i c"
  by (auto simp: relink_def Let_def unlink_from_def)

lemma depth_ok_update_parent:
  assumes inv: "depth_ok prev" and t: "type data = PARENT"
    and a: "parentId data = None" "i \<notin> set ks" "childless ks prev"
  shows "depth_ok (updateCustomer prev i data ks)"
  unfolding updateCustomer_parent_map [OF t] depth_ok_def
proof (intro ballI impI, elim conjE)
  fix c' d'
  assume c': "c' \<in> set (map (relink i data ks) prev)" and d': "d' \<in> set (map (relink i data ks) prev)"
    and ne: "customer_id d' \<noteq> customer_id c'" and p: "parentId d' = Some (customer_id c')"
  from c' obtain c where c: "c \<in> set prev" "c' = relink i data ks c" by auto
  from d' obtain d where d: "d \<in> set prev" "d' = relink i data ks d" by auto
  have idc: "customer_id c' = customer_id c" using c by simp
  have idd: "customer_id d' = customer_id d" using d by simp
  show "parentId c' = None"
  proof (cases "customer_id d \<in> set ks")
    case True
    then have "parentId d' = Some i" using d relink_linked by simp
    with p idc have "customer_id c = i" by simp
    then show ?thesis using c a(1,2) relink_self by simp
  next
    case False
    have di: "customer_id d \<noteq> i"
    proof
      assume "customer_id d = i"
      then have "parentId d' = None" using d a(1,2) relink_self by simp
      with p show False by simp
    qed
    have d'': "d' = unlink_from i d" using d False di relink_other by simp
    then have pd: "parentId d = Some (customer_id c) \<and> customer_id c \<noteq> i"
      using p idc by (auto simp: unlink_from_def split: if_splits)
    then have "customer_id c \<notin> set ks" using a(3) d(1) unfolding childless_def by auto
    moreover have "parentId c = None"
      using inv c(1) d(1) pd ne idc idd unfolding depth_ok_def by metis
    ultimately show ?thesis using c pd relink_other [of c ks i data] by (simp add: unlink_from_def)
  qed
qed

lemma addCustomer_parent_map:
  "type data = PARENT \<Longrightarrow>
     addCustomer now isoTime prev data ks
       = map (link_to (''cust_'' @ show_nat now) ks) (prev @ [newCustomer now isoTime data])"
  by (cases ks) (simp_all add: addCustomer_def link_to_def [abs_def] Let_def newCustomer_def)

lemma addCustomer_direct:
  "type data = DIRECT \<Longrightarrow> addCustomer now isoTime prev data ks = prev @ [newCustomer now isoTime data]"
  by (simp add: addCustomer_def)

lemma link_to_id [simp]: "customer_id (link_to n ks c) = customer_id c"
  by (simp add: link_to_def)

lemma depth_ok_add_parent:
  assumes inv: "depth_ok prev" and t: "type data = PARENT"
    and a: "unused_id (''cust_'' @ show_nat now) prev" "''cust_'' @ show_nat now \<notin> set ks"
       "childless ks prev"
  shows "depth_ok (addCustomer now isoTime prev data ks)"
  unfolding addCustomer_parent_map [OF t] depth_ok_def
proof (intro ballI impI, elim conjE)
  let ?n = "''cust_'' @ show_nat now"
  let ?new = "newCustomer now isoTime data"
  fix c' d'
  assume c': "c' \<in> set (map (link_to ?n ks) (prev @ [?new]))"
    and d': "d' \<in> set (map (link_to ?n ks) (prev @ [?new]))"
    and ne: "customer_id d' \<noteq> customer_id c'" and p: "parentId d' = Some (customer_id c')"
  from c' obtain c where c: "c \<in> set prev \<or> c = ?new" "c' = link_to ?n ks c" by auto
  from d' obtain d where d: "d \<in> set prev \<or> d = ?new" "d' = link_to ?n ks d" by auto
  have new: "customer_id ?new = ?n" "parentId ?new = None"
    using t by (simp_all add: newCustomer_def)
  have idc: "customer_id c' = customer_id c" using c by simp
  have idd: "customer_id d' = customer_id d" using d by simp
  show "parentId c' = None"
  proof (cases "customer_id d \<in> set ks")
    case True
    then have "parentId d' = Some ?n" using d by (simp add: link_to_def)
    with p idc have "customer_id c = ?n" by simp
    with c(1) a(1) have "c = ?new" unfolding unused_id_def by auto
    then show ?thesis using c(2) new a(2) by (simp add: link_to_def)
  next
    case False
    then have "d' = d" using d by (simp add: link_to_def)
    with p idc have pd: "parentId d = Some (customer_id c)" by simp
    with new d(1) have dp: "d \<in> set prev" by auto
    show ?thesis
    proof (cases "c = ?new")
      case True
      then show ?thesis using c(2) new a(2) by (simp add: link_to_def)
    next
      case False
      with c(1) have cp: "c \<in> set prev" by simp
      have "customer_id c \<notin> set ks" using a(3) dp pd unfolding childless_def by auto
      moreover have "parentId c = None"
        using inv cp dp pd ne idc idd unfolding depth_ok_def by metis
      ultimately show ?thesis using c(2) by (simp add: link_to_def)
    qed
  qed
qed

lemma depth_ok_add_direct:
  assumes inv: "depth_ok prev" and t: "type data = DIRECT"
    and a: "unused_id (''cust_'' @ show_nat now) prev" "top_level (parentId data) prev"
  shows "depth_ok (addCustomer now isoTime prev data ks)"
  unfolding addCustomer_direct [OF t] depth_ok_def
proof (intro ballI impI, elim conjE)
  let ?n = "''cust_'' @ show_nat now"
  let ?new = "newCustomer now isoTime data"
  fix c d
  assume c: "c \<in> set (prev @ [?new])" and d: "d \<in> set (prev @ [?new])"
    and ne: "customer_id d \<noteq> customer_id c" and p: "parentId d = Some (customer_id c)"
  have new: "customer_id ?new = ?n" "parentId ?new = parentId data"
    using t by (simp_all add: newCustomer_def)
  show "parentId c = None"
  proof (cases "d = ?new")
    case True
    with p new have pc: "parentId data = Some (customer_id c)" by simp
    with ne True have "c \<noteq> ?new" by auto
    with c have "c \<in> set prev" by simp
    with a(2) pc show ?thesis unfolding top_level_def by auto
  next
    case False
    with d have dp: "d \<in> set prev" by simp
    with a(1) p have "customer_id c \<noteq> ?n" unfolding unused_id_def by auto
    with new c have "c \<in> set prev" by auto
    with inv dp p ne show ?thesis unfolding depth_ok_def by metis
  qed
qed

text \<open>
  Claim C2, as stated, fails: the engine checks nothing about the ids it is given. In the
  sample store \<open>a\<close> is the parent of \<open>b\<close>; updating \<open>c\<close> as a PARENT with
  \<open>childIdsToLink = [a]\<close> makes \<open>a\<close> a child of \<open>c\<close> while \<open>b\<close> still points to \<open>a\<close>.
\<close>

theorem depth_not_preserved_counterexample:
  "depth_ok sample_population
   \<and> \<not> depth_ok (updateCustomer sample_population ''c'' (sample_form ''c'' PARENT None) [''a''])"
  by (simp add: depth_ok_def sample_defs updateCustomer_def merge_data_def)

text \<open>
  Claim C2, amended. From a store of depth at most 2:
  \<^item> \<open>deleteCustomer\<close> always gives a store of depth at most 2;
  \<^item> \<open>addCustomer\<close> does when the new id is used nowhere in the store, and, for a PARENT
    candidate, the new id is not among \<open>childIdsToLink\<close> and no id of \<open>childIdsToLink\<close> is
    the parent of a stored customer, and, for a DIRECT candidate, the customer named by its
    \<open>parentId\<close> has no parent;
  \<^item> \<open>updateCustomer\<close> does when, for a PARENT candidate, the candidate has no \<open>parentId\<close>,
    the updated id is not among \<open>childIdsToLink\<close> and no id of \<open>childIdsToLink\<close> is the
    parent of a stored customer, and, for a DIRECT candidate, its \<open>parentId\<close> is not the
    updated id, the customer it names has no parent, and, if it is set, the updated id is
    the parent of no stored customer;
  \<^item> \<open>batchAddCustomers\<close> does exactly when the batch has depth at most 2 and no customer of
    the batch or of the store names as parent a customer of the other list that has a
    parent.
\<close>

theorem depth_preserved_when_eligible:
  assumes "depth_ok prev"
  shows "depth_ok (deleteCustomer prev i)
    \<and> (unused_id (''cust_'' @ show_nat now) prev
        \<and> (type data = PARENT \<longrightarrow> ''cust_'' @ show_nat now \<notin> set ks \<and> childless ks prev)
        \<and> (type data = DIRECT \<longrightarrow> top_level (parentId data) prev)
        \<longrightarrow> depth_ok (addCustomer now isoTime prev data ks))
    \<and> ((type data = PARENT \<longrightarrow> parentId data = None \<and> i \<notin> set ks \<and> childless ks prev)
        \<and> (type data = DIRECT \<longrightarrow> top_level (parentId data) prev \<and> parentId data \<noteq> Some i
               \<and> (parentId data \<noteq> None \<longrightarrow> childless [i] prev))
        \<longrightarrow> depth_ok (updateCustomer prev i data ks))
    \<and> (depth_ok (batchAddCustomers prev news) \<longleftrightarrow>
          depth_ok news \<and> cross_ok prev news \<and> cross_ok news prev)"
proof (intro conjI impI)
  show "depth_ok (deleteCustomer prev i)"
    by (rule depth_ok_delete [OF assms])
next
  assume h: "unused_id (''cust_'' @ show_nat now) prev
        \<and> (type data = PARENT \<longrightarrow> ''cust_'' @ show_nat now \<notin> set ks \<and> childless ks prev)
        \<and> (type data = DIRECT \<longrightarrow> top_level (parentId data) prev)"
  show "depth_ok (addCustomer now isoTime prev data ks)"
  proof (cases "type data")
    case DIRECT
    with h show ?thesis using depth_ok_add_direct [OF assms DIRECT] by blast
  next
    case PARENT
    with h show ?thesis using depth_ok_add_parent [OF assms PARENT] by blast
  qed
next
  assume h: "(type data = PARENT \<longrightarrow> parentId data = None \<and> i \<notin> set ks \<and> childless ks prev)
        \<and> (type data = DIRECT \<longrightarrow> top_level (parentId data) prev \<and> parentId data \<noteq> Some i
               \<and> (parentId data \<noteq> None \<longrightarrow> childless [i] prev))"
  show "depth_ok (updateCustomer prev i data ks)"
  proof (cases "type data")
    case DIRECT
    with h show ?thesis using depth_ok_update_direct [OF assms DIRECT] by blast
  next
    case PARENT
    with h show ?thesis using depth_ok_update_parent [OF assms PARENT] by blast
  qed
next
  show "depth_ok (batchAddCustomers prev news) \<longleftrightarrow>
          depth_ok news \<and> cross_ok prev news \<and> cross_ok news prev"
    using assms by (simp add: depth_ok_batchAdd)
qed

theorem depth_preserved_when_eligible_witness:
  "depth_ok sample_population
   \<and> depth_ok (deleteCustomer sample_population ''a'')
   \<and> (unused_id (''cust_'' @ show_nat 5) sample_population
       \<and> ''cust_'' @ show_nat 5 \<notin> set [''c''] \<and> childless [''c''] sample_population)
   \<and> depth_ok (addCustomer 5 ''t'' sample_population (sample_form ''p'' PARENT None) [''c''])
   \<and> (''c'' \<notin> set [''b''] \<and> childless [''b''] sample_population)
   \<and> depth_ok (updateCustomer sample_population ''c'' (sample_form ''c'' PARENT None) [''b''])
   \<and> (depth_ok [sample_customer ''d'' DIRECT (Some ''a'')]
       \<and> cross_ok sample_population [sample_customer ''d'' DIRECT (Some ''a'')]
       \<and> cross_ok [sample_customer ''d'' DIRECT (Some ''a'')] sample_population)
   \<and> depth_ok (batchAddCustomers sample_population [sample_customer ''d'' DIRECT (Some ''a'')])"
proof -
  have inv: "depth_ok sample_population"
    by (simp add: depth_ok_def sample_defs)
  have ty: "type (sample_form ''p'' PARENT None) = PARENT" "type (sample_form ''c'' PARENT None) = PARENT"
    "parentId (sample_form ''c'' PARENT None) = None"
    by (simp_all add: sample_form_def)
  have a: "unused_id (''cust_'' @ show_nat 5) sample_population
       \<and> ''cust_'' @ show_nat 5 \<notin> set [''c''] \<and> childless [''c''] sample_population"
    by (simp add: unused_id_def childless_def sample_defs)
  have u: "''c'' \<notin> set [''b''] \<and> childless [''b''] sample_population"
    by (simp add: childless_def sample_defs)
  have b: "depth_ok [sample_customer ''d'' DIRECT (Some ''a'')]
       \<and> cross_ok sample_population [sample_customer ''d'' DIRECT (Some ''a'')]
       \<and> cross_ok [sample_customer ''d'' DIRECT (Some ''a'')] sample_population"
    by (simp add: depth_ok_def cross_ok_def sample_defs)
  note t = depth_preserved_when_eligible [OF inv, of "''a''" 5 "sample_form ''p'' PARENT None" "[''c'']"
      "''t''"]
  note t2 = depth_preserved_when_eligible [OF inv, of "''c''" 5 "sample_form ''c'' PARENT None" "[''b'']"
      "''t''" "[sample_customer ''d'' DIRECT (Some ''a'')]"]
  have r1: "depth_ok (deleteCustomer sample_population ''a'')"
    by (rule t [THEN conjunct1])
  have r2: "depth_ok (addCustomer 5 ''t'' sample_population (sample_form ''p'' PARENT None) [''c''])"
    using t [THEN conjunct2, THEN conjunct1] a ty by simp
  have r3: "depth_ok (updateCustomer sample_population ''c'' (sample_form ''c'' PARENT None) [''b''])"
    using t2 [THEN conjunct2, THEN conjunct2, THEN conjunct1] u ty by simp
  have r4: "depth_ok (batchAddCustomers sample_population [sample_customer ''d'' DIRECT (Some ''a'')])"
    using t2 [THEN conjunct2, THEN conjunct2, THEN conjunct2] b by simp
  show ?thesis
    by (intro conjI)
       (rule inv, rule r1, rule a [THEN conjunct1], rule a [THEN conjunct2, THEN conjunct1],
        rule a [THEN conjunct2, THEN conjunct2], rule r2, rule u [THEN conjunct1],
        rule u [THEN conjunct2], rule r3, rule b [THEN conjunct1],
        rule b [THEN conjunct2, THEN conjunct1], rule b [THEN conjunct2, THEN conjunct2], rule r4)
qed

section \<open>Batch import resolver: properties\<close>

lemma push_group_keys: "fst ` set (push_group a r g) = insert a (fst ` set g)"
  by (induction a r g rule: push_group.induct) auto

lemma push_group_distinct: "distinct (map fst g) \<Longrightarrow> distinct (map fst (push_group a r g))"
  by (induction a r g rule: push_group.induct) (auto simp: push_group_keys)

lemma push_group_map_of:
  "map_of (push_group a r g) k =
     (if k = a then Some (case map_of g a of None \<Rightarrow> [r] | Some rs \<Rightarrow> rs @ [r]) else map_of g k)"
  by (induction a r g rule: push_group.induct) auto

lemma grouped_push:
  assumes "grouped g seen"
  shows "grouped (push_group (row_accountNumber r) r g) (seen @ [r])"
proof -
  from assms have d: "distinct (map fst g)"
    and s: "\<And>a. map_of g a = (if group_of seen a = [] then None else Some (group_of seen a))"
    by (simp_all add: grouped_def)
  have "map_of (push_group (row_accountNumber r) r g) a =
      (if group_of (seen @ [r]) a = [] then None else Some (group_of (seen @ [r]) a))" for a
    unfolding push_group_map_of s by (simp add: group_of_def)
  with push_group_distinct [OF d] show ?thesis by (simp add: grouped_def)
qed

lemma grouped_iff:
  "grouped g rows \<longleftrightarrow>
     distinct (map fst g) \<and> (\<forall>a rs. (a, rs) \<in> set g \<longleftrightarrow> rs = group_of rows a \<and> rs \<noteq> [])"
proof (cases "distinct (map fst g)")
  case False
  then show ?thesis by (simp add: grouped_def)
next
  case True
  have m: "(a, rs) \<in> set g \<longleftrightarrow> map_of g a = Some rs" for a rs
    using True by simp
  show ?thesis
  proof
    assume "grouped g rows"
    then have "\<And>a. map_of g a = (if group_of rows a = [] then None else Some (group_of rows a))"
      by (simp add: grouped_def)
    then show "distinct (map fst g) \<and> (\<forall>a rs. (a, rs) \<in> set g \<longleftrightarrow> rs = group_of rows a \<and> rs \<noteq> [])"
      using True unfolding m by auto
  next
    assume r: "distinct (map fst g) \<and> (\<forall>a rs. (a, rs) \<in> set g \<longleftrightarrow> rs = group_of rows a \<and> rs \<noteq> [])"
    have "map_of g a = (if group_of rows a = [] then None else Some (group_of rows a))" for a
    proof (cases "map_of g a")
      case None
      then have "\<And>rs. (a, rs) \<notin> set g" unfolding m by simp
      with r None show ?thesis by auto
    next
      case (Some rs)
      then have "(a, rs) \<in> set g" unfolding m by simp
      with r Some show ?thesis by auto
    qed
    with True show "grouped g rows" by (simp add: grouped_def)
  qed
qed

lemma grouped_mem:
  "grouped g rows \<Longrightarrow> (a, rs) \<in> set g \<longleftrightarrow> rs = group_of rows a \<and> rs \<noteq> []"
  by (simp add: grouped_iff)

lemma groupByAccount_grouped:
  "\<forall>r\<in>set rows. row_accountNumber r \<notin> set prototype_keys \<Longrightarrow> grouped g0 seen
     \<Longrightarrow> \<exists>g. groupByAccount rows g0 = Inr g \<and> grouped g (seen @ rows)"
proof (induction rows arbitrary: g0 seen)
  case Nil
  then show ?case by simp
next
  case (Cons r rows)
  from Cons.prems have "grouped (push_group (row_accountNumber r) r g0) (seen @ [r])"
    by (simp add: grouped_push)
  from Cons.IH [OF _ this] Cons.prems(1) show ?case by (simp add: Let_def)
qed

lemma groupByAccount_Inl:
  "\<exists>r\<in>set rows. row_accountNumber r \<in> set prototype_keys \<Longrightarrow> groupByAccount rows g0 = Inl TypeError"
  by (induction rows arbitrary: g0) (auto simp: Let_def)


lemma groupByAccount_ok:
  assumes "\<forall>r\<in>set rows. row_accountNumber r \<notin> set prototype_keys"
  shows "\<exists>g. groupByAccount rows [] = Inr g \<and> grouped g rows"
  using groupByAccount_grouped [OF assms, of "[]" "[]"] by (simp add: grouped_def group_of_def)

lemma mset_object_keys_order: "mset (object_keys_order g) = mset g"
  by (simp add: object_keys_order_def)

lemma set_object_keys_order: "set (object_keys_order g) = set g"
  using mset_object_keys_order [of g] by (metis set_mset_mset)

lemma distinct_object_keys_order:
  "distinct (map fst (object_keys_order g)) = distinct (map fst g)"
proof -
  have "mset (map fst (object_keys_order g)) = mset (map fst g)"
    using mset_object_keys_order [of g] by (metis mset_map)
  then show ?thesis by (rule mset_eq_imp_distinct_iff)
qed

lemma grouped_object_keys_order: "grouped g rows \<Longrightarrow> grouped (object_keys_order g) rows"
  by (simp add: grouped_iff set_object_keys_order distinct_object_keys_order)

lemma secondPass_step_eq:
  "secondPass_step env ex m g b =
     \<lparr> validCustomers = validCustomers b @ accepted_of env ex m g,
       errors = errors b @ rejected_of env ex m g \<rparr>"
  by (cases "analyzeGroup env ex m g")
     (simp_all add: secondPass_step_def accepted_of_def rejected_of_def)

lemma fold_secondPass:
  "fold (secondPass_step env ex m) gs b =
     \<lparr> validCustomers = validCustomers b @ concat (map (accepted_of env ex m) gs),
       errors = errors b @ concat (map (rejected_of env ex m) gs) \<rparr>"
  by (induction gs arbitrary: b) (simp_all add: secondPass_step_eq)

lemma analyzeRows_eq:
  assumes "groupByAccount rows [] = Inr g"
  shows "analyzeRows env ex ps rows =
     Inr \<lparr> validCustomers =
             concat (map (accepted_of env ex (name_map env ps rows)) (object_keys_order g)),
           errors = sort_key err_rowNumber
             (concat (map (rejected_of env ex (name_map env ps rows)) (object_keys_order g))) \<rparr>"
  using assms by (simp add: analyzeRows_def name_map_def Let_def fold_secondPass)

lemma length_filter_eq_iff: "length (filter P xs) = length xs \<longleftrightarrow> (\<forall>x\<in>set xs. P x)"
proof (induction xs)
  case Nil
  then show ?case by simp
next
  case (Cons x xs)
  have "length (filter P xs) \<le> length xs" by simp
  then have "length (filter P xs) \<noteq> Suc (length xs)" by arith
  with Cons show ?case by simp
qed

lemma buildContacts_length [simp]: "length (buildContacts k rs) = length rs"
  by (simp add: buildContacts_def)

lemma buildContacts_nth:
  "n < length rs \<Longrightarrow> buildContacts k rs ! n =
     \<lparr> contact_id = ''cont_imp_'' @ k @ ''_'' @ show_nat n, contact_name = contactName (rs ! n),
       email = contactEmail (rs ! n), phone = contactPhone (rs ! n),
       contact_isPrimary = row_isPrimary (rs ! n) \<rparr>"
  by (simp add: buildContacts_def nth_enumerate_eq)

lemma buildContacts_all_valid:
  "(\<forall>c\<in>set (buildContacts k rs). contact_name c \<noteq> [] \<and> email c \<noteq> [])
     \<longleftrightarrow> (\<forall>r\<in>set rs. \<not> missing_contact r)"
  unfolding all_set_conv_all_nth
  by (simp add: buildContacts_nth missing_contact_def)

lemma resolvePrimary_Inl:
  "resolvePrimary rs cs = Inl es \<Longrightarrow> \<exists>why. es = reject rs why"
  by (auto simp: resolvePrimary_def Let_def split: if_splits)

lemma resolvePrimary_Inr:
  "resolvePrimary rs cs = Inr cs' \<Longrightarrow> length cs' = length cs"
  by (auto simp: resolvePrimary_def Let_def split: if_splits)

lemma buildCustomer_Inl:
  "buildCustomer env m k rs r0 cs = Inl es \<Longrightarrow> \<exists>why. es = reject rs why"
  by (auto simp: buildCustomer_def Let_def split: if_splits)

lemma buildCustomer_Inr:
  "buildCustomer env m k rs r0 cs = Inr c \<Longrightarrow>
     accountNumber c = row_accountNumber r0 \<and> contacts c = cs \<and> name c = customerName r0"
  by (auto simp: buildCustomer_def Let_def split: if_splits)

lemma analyzeGroup_Inl:
  assumes "analyzeGroup env ex m (k, r0 # rs) = Inl es"
  shows "(\<exists>why. es = reject (r0 # rs) why)
     \<or> (es = reject (filter missing_contact (r0 # rs)) ''Missing Contact Name or Email.''
        \<and> (\<exists>r\<in>set (r0 # rs). missing_contact r))"
proof -
  let ?rows = "r0 # rs"
  let ?cs = "buildContacts k ?rows"
  let ?valid = "filter (\<lambda>c. contact_name c \<noteq> [] \<and> email c \<noteq> []) ?cs"
  consider (a) "customerName r0 = []"
    | (b) "customerName r0 \<noteq> []" "length (remdups (map customerName ?rows)) > 1"
    | (c) "customerName r0 \<noteq> []" "\<not> length (remdups (map customerName ?rows)) > 1"
          "list_ex (\<lambda>c. accountNumber c = k) ex"
    | (d) "customerName r0 \<noteq> []" "\<not> length (remdups (map customerName ?rows)) > 1"
          "\<not> list_ex (\<lambda>c. accountNumber c = k) ex" "length ?valid \<noteq> length ?cs"
    | (e) "customerName r0 \<noteq> []" "\<not> length (remdups (map customerName ?rows)) > 1"
          "\<not> list_ex (\<lambda>c. accountNumber c = k) ex" "length ?valid = length ?cs"
    by blast
  then show ?thesis
  proof cases
    case a
    with assms show ?thesis by (auto simp: analyzeGroup_def)
  next
    case b
    with assms show ?thesis by (auto simp: analyzeGroup_def)
  next
    case c
    with assms show ?thesis by (auto simp: analyzeGroup_def)
  next
    case d
    have "\<not> (\<forall>c\<in>set ?cs. contact_name c \<noteq> [] \<and> email c \<noteq> [])"
      using d(4) unfolding length_filter_eq_iff .
    then have "\<not> (\<forall>r\<in>set ?rows. \<not> missing_contact r)"
      unfolding buildContacts_all_valid .
    then have ex: "\<exists>r\<in>set ?rows. missing_contact r"
      by blast
    have "es = reject (filter missing_contact ?rows) ''Missing Contact Name or Email.''"
      using assms d by (simp add: analyzeGroup_def Let_def missing_contact_def [abs_def])
    with ex show ?thesis by blast
  next
    case e
    then have eq: "analyzeGroup env ex m (k, ?rows) =
        (case resolvePrimary ?rows ?valid of Inl es \<Rightarrow> Inl es
         | Inr finalContacts \<Rightarrow> buildCustomer env m k ?rows r0 finalContacts)"
      by (simp add: analyzeGroup_def Let_def)
    show ?thesis
    proof (cases "resolvePrimary ?rows ?valid")
      case (Inl es')
      with assms eq have "es = es'" by simp
      with resolvePrimary_Inl [OF Inl] show ?thesis by blast
    next
      case (Inr cs')
      with assms eq have "buildCustomer env m k ?rows r0 cs' = Inl es" by simp
      from buildCustomer_Inl [OF this] show ?thesis by blast
    qed
  qed
qed

lemma analyzeGroup_Inr:
  assumes "analyzeGroup env ex m (k, r0 # rs) = Inr c"
  shows "accountNumber c = row_accountNumber r0 \<and> length (contacts c) = Suc (length rs)
     \<and> name c = customerName r0"
proof -
  let ?rows = "r0 # rs"
  let ?cs = "buildContacts k ?rows"
  let ?valid = "filter (\<lambda>c. contact_name c \<noteq> [] \<and> email c \<noteq> []) ?cs"
  from assms have e: "customerName r0 \<noteq> []" "\<not> length (remdups (map customerName ?rows)) > 1"
          "\<not> list_ex (\<lambda>c. accountNumber c = k) ex" "length ?valid = length ?cs"
    by (auto simp: analyzeGroup_def Let_def split: if_splits)
  then have eq: "analyzeGroup env ex m (k, ?rows) =
        (case resolvePrimary ?rows ?valid of Inl es \<Rightarrow> Inl es
         | Inr finalContacts \<Rightarrow> buildCustomer env m k ?rows r0 finalContacts)"
    by (simp add: analyzeGroup_def Let_def)
  show ?thesis
  proof (cases "resolvePrimary ?rows ?valid")
    case (Inl es')
    with assms eq show ?thesis by simp
  next
    case (Inr cs')
    with assms eq have b: "buildCustomer env m k ?rows r0 cs' = Inr c" by simp
    from resolvePrimary_Inr [OF Inr] e(4) have "length cs' = Suc (length rs)" by simp
    with buildCustomer_Inr [OF b] show ?thesis by simp
  qed
qed

lemma filter_concat_single:
  assumes "distinct (map fst gs)" and "(a, x) \<in> set gs"
    and "\<And>g'. g' \<in> set gs \<Longrightarrow> fst g' \<noteq> a \<Longrightarrow> filter P (f g') = []"
  shows "filter P (concat (map f gs)) = filter P (f (a, x))"
  using assms
proof (induction gs)
  case Nil
  then show ?case by simp
next
  case (Cons g gs)
  show ?case
  proof (cases "g = (a, x)")
    case True
    with Cons.prems(1) have "\<And>g'. g' \<in> set gs \<Longrightarrow> fst g' \<noteq> a" by (auto simp: image_iff)
    with Cons.prems(3) have "\<And>g'. g' \<in> set gs \<Longrightarrow> filter P (f g') = []" by simp
    then have "filter P (concat (map f gs)) = []"
      by (induction gs) simp_all
    with True show ?thesis by simp
  next
    case False
    with Cons.prems(2) have in_gs: "(a, x) \<in> set gs" by simp
    with Cons.prems(1) have "fst g \<noteq> a" by (auto simp: image_iff)
    with Cons.prems(3) have "filter P (f g) = []" by simp
    moreover have "filter P (concat (map f gs)) = filter P (f (a, x))"
      using Cons.IH [OF _ in_gs] Cons.prems(1,3) by simp
    ultimately show ?thesis by simp
  qed
qed

lemma reject_entry:
  "e \<in> set (reject xs why) \<Longrightarrow> err_rowNumber e \<in> rowNumber ` set xs \<and> reason e = why"
  by (auto simp: reject_def)

lemma rejected_rows:
  "e \<in> set (rejected_of env ex m (k, rs)) \<Longrightarrow> err_rowNumber e \<in> rowNumber ` set rs"
proof (cases rs)
  case Nil
  assume "e \<in> set (rejected_of env ex m (k, rs))"
  with Nil show ?thesis by (simp add: rejected_of_def analyzeGroup_def)
next
  case (Cons r0 rs')
  assume e: "e \<in> set (rejected_of env ex m (k, rs))"
  show ?thesis
  proof (cases "analyzeGroup env ex m (k, r0 # rs')")
    case (Inl es)
    with e Cons have "e \<in> set es" by (simp add: rejected_of_def)
    with analyzeGroup_Inl [OF Inl] obtain xs why where "e \<in> set (reject xs why)"
      and "set xs \<subseteq> set (r0 # rs')" by (metis filter_is_subset subset_refl)
    with reject_entry [of e xs why] Cons show ?thesis by blast
  next
    case (Inr c)
    with e Cons show ?thesis by (simp add: rejected_of_def)
  qed
qed

lemma rejected_same_reason:
  "e \<in> set (rejected_of env ex m (k, rs)) \<Longrightarrow> e' \<in> set (rejected_of env ex m (k, rs))
     \<Longrightarrow> reason e = reason e'"
proof (cases rs)
  case Nil
  assume "e \<in> set (rejected_of env ex m (k, rs))"
  with Nil show ?thesis by (simp add: rejected_of_def analyzeGroup_def)
next
  case (Cons r0 rs')
  assume e: "e \<in> set (rejected_of env ex m (k, rs))" "e' \<in> set (rejected_of env ex m (k, rs))"
  show ?thesis
  proof (cases "analyzeGroup env ex m (k, r0 # rs')")
    case (Inl es)
    with e Cons have "e \<in> set es" "e' \<in> set es" by (simp_all add: rejected_of_def)
    with analyzeGroup_Inl [OF Inl] obtain xs why where "e \<in> set (reject xs why)"
      and "e' \<in> set (reject xs why)" by metis
    with reject_entry [of e xs why] reject_entry [of e' xs why] show ?thesis by simp
  next
    case (Inr c)
    with e Cons show ?thesis by (simp add: rejected_of_def)
  qed
qed

lemma accepted_account:
  "c \<in> set (accepted_of env ex m (k, rs)) \<Longrightarrow> rs \<noteq> [] \<and> accountNumber c = row_accountNumber (hd rs)"
proof (cases rs)
  case Nil
  assume "c \<in> set (accepted_of env ex m (k, rs))"
  with Nil show ?thesis by (simp add: accepted_of_def analyzeGroup_def)
next
  case (Cons r0 rs')
  assume c: "c \<in> set (accepted_of env ex m (k, rs))"
  show ?thesis
  proof (cases "analyzeGroup env ex m (k, r0 # rs')")
    case (Inl es)
    with c Cons show ?thesis by (simp add: accepted_of_def)
  next
    case (Inr c')
    with c Cons have "c = c'" by (simp add: accepted_of_def)
    with analyzeGroup_Inr [OF Inr] Cons show ?thesis by simp
  qed
qed

lemma group_of_account: "r \<in> set (group_of rows a) \<longleftrightarrow> r \<in> set rows \<and> row_accountNumber r = a"
  by (auto simp: group_of_def)

lemma distinct_rowNumber_eq:
  "distinct (map rowNumber rows) \<Longrightarrow> r \<in> set rows \<Longrightarrow> r' \<in> set rows
     \<Longrightarrow> rowNumber r' = rowNumber r \<Longrightarrow> r' = r"
  by (meson distinct_map inj_on_def)

lemma filter_rowNumber_single:
  assumes "distinct (map rowNumber rs)" and "r \<in> set rs"
  shows "filter (\<lambda>r'. rowNumber r' = rowNumber r) rs = [r]"
  using assms
proof (induction rs)
  case Nil
  then show ?case by simp
next
  case (Cons x xs)
  show ?case
  proof (cases "x = r")
    case True
    with Cons.prems(1) have "\<And>r'. r' \<in> set xs \<Longrightarrow> rowNumber r' \<noteq> rowNumber r" by (auto simp: image_iff)
    then have "filter (\<lambda>r'. rowNumber r' = rowNumber r) xs = []" by (simp add: filter_empty_conv)
    with True show ?thesis by simp
  next
    case False
    with Cons.prems have "r \<in> set xs" by simp
    with Cons.prems(1) have "rowNumber x \<noteq> rowNumber r" by (auto simp: image_iff)
    with Cons.IH Cons.prems(1) \<open>r \<in> set xs\<close> show ?thesis by simp
  qed
qed

lemma distinct_group_of: "distinct (map rowNumber rows) \<Longrightarrow> distinct (map rowNumber (group_of rows a))"
  by (simp add: group_of_def distinct_map_filter)

lemma mset_filter_sort_key: "mset (filter P (sort_key f xs)) = mset (filter P xs)"
  by (simp add: mset_filter)

lemma filter_sort_key_Nil: "filter P xs = [] \<Longrightarrow> filter P (sort_key f xs) = []"
proof -
  assume "filter P xs = []"
  then have "mset (filter P (sort_key f xs)) = {#}" by (simp only: mset_filter_sort_key mset.simps)
  then show ?thesis by (simp only: mset_zero_iff)
qed

lemma filter_sort_key_single: "filter P xs = [e] \<Longrightarrow> filter P (sort_key f xs) = [e]"
proof -
  assume "filter P xs = [e]"
  then have "mset (filter P (sort_key f xs)) = {#e#}" by (simp only: mset_filter_sort_key mset.simps)
  then show ?thesis by (simp only: mset_single_iff)
qed

text \<open>What the resolver returns for one row when the grouping completes.\<close>

lemma row_outcome:
  assumes d: "distinct (map rowNumber rows)"
    and g: "groupByAccount rows [] = Inr g" "grouped g rows"
    and r: "r \<in> set rows"
    and out_def: "out = \<lparr> validCustomers = concat (map (accepted_of env ex m) (object_keys_order g)),
             errors = sort_key err_rowNumber
               (concat (map (rejected_of env ex m) (object_keys_order g))) \<rparr>"
  shows "(length (customers_for out r) = 1 \<and> entries_for out r = [])
     \<or> (customers_for out r = []
         \<and> (\<exists>why. entries_for out r = [\<lparr> err_rowNumber = rowNumber r, reason = why \<rparr>]))
     \<or> (customers_for out r = [] \<and> entries_for out r = [] \<and> \<not> missing_contact r
         \<and> (\<exists>r'\<in>set rows. row_accountNumber r' = row_accountNumber r \<and> missing_contact r'
               \<and> \<lparr> err_rowNumber = rowNumber r', reason = ''Missing Contact Name or Email.'' \<rparr>
                    \<in> set (errors out)))"
proof -
  let ?gs = "object_keys_order g"
  let ?a = "row_accountNumber r"
  let ?grp = "group_of rows ?a"
  let ?P = "\<lambda>e. err_rowNumber e = rowNumber r"
  let ?Q = "\<lambda>c. accountNumber c = ?a"
  have gs: "grouped ?gs rows" by (rule grouped_object_keys_order [OF g(2)])
  then have dk: "distinct (map fst ?gs)" by (simp add: grouped_iff)
  have rin: "r \<in> set ?grp" using r by (simp add: group_of_account)
  then have ne: "?grp \<noteq> []" by auto
  then have mem: "(?a, ?grp) \<in> set ?gs" using gs by (simp add: grouped_mem)
  have other_R: "filter ?P (rejected_of env ex m g') = []" if "g' \<in> set ?gs" "fst g' \<noteq> ?a" for g'
  proof -
    obtain a' rs' where g': "g' = (a', rs')" by (cases g')
    with that gs have rs': "rs' = group_of rows a'" by (simp add: grouped_mem)
    have "err_rowNumber e \<noteq> rowNumber r" if "e \<in> set (rejected_of env ex m g')" for e
    proof
      assume eq: "err_rowNumber e = rowNumber r"
      from rejected_rows [OF that [unfolded g']] obtain r' where
        r': "r' \<in> set rs'" "err_rowNumber e = rowNumber r'" by auto
      with rs' have "r' \<in> set rows" "row_accountNumber r' = a'" by (simp_all add: group_of_account)
      moreover from this r' eq have "r' = r" using distinct_rowNumber_eq [OF d r] by simp
      ultimately show False using \<open>fst g' \<noteq> ?a\<close> g' by simp
    qed
    then show ?thesis by (simp add: filter_empty_conv)
  qed
  have other_A: "filter ?Q (accepted_of env ex m g') = []" if "g' \<in> set ?gs" "fst g' \<noteq> ?a" for g'
  proof -
    obtain a' rs' where g': "g' = (a', rs')" by (cases g')
    with that gs have rs': "rs' = group_of rows a'" by (simp add: grouped_mem)
    have "accountNumber c \<noteq> ?a" if "c \<in> set (accepted_of env ex m g')" for c
    proof -
      from accepted_account [OF that [unfolded g']] have "rs' \<noteq> []"
        "accountNumber c = row_accountNumber (hd rs')" by simp_all
      moreover from this rs' have "hd rs' \<in> set (group_of rows a')" by simp
      ultimately have "accountNumber c = a'" by (simp add: group_of_account)
      with \<open>fst g' \<noteq> ?a\<close> g' show ?thesis by simp
    qed
    then show ?thesis by (simp add: filter_empty_conv)
  qed
  have R: "filter ?P (concat (map (rejected_of env ex m) ?gs)) = filter ?P (rejected_of env ex m (?a, ?grp))"
    by (rule filter_concat_single [OF dk mem other_R])
  have A: "filter ?Q (concat (map (accepted_of env ex m) ?gs)) = filter ?Q (accepted_of env ex m (?a, ?grp))"
    by (rule filter_concat_single [OF dk mem other_A])
  have cust: "customers_for out r = filter ?Q (accepted_of env ex m (?a, ?grp))"
    by (simp add: customers_for_def out_def A)
  have sub: "set (rejected_of env ex m (?a, ?grp)) \<subseteq> set (errors out)"
    using mem by (auto simp: out_def)
  have dg: "distinct (map rowNumber ?grp)" by (rule distinct_group_of [OF d])
  obtain r0 rs0 where grp: "?grp = r0 # rs0" using ne by (cases ?grp) auto
  show ?thesis
  proof (cases "analyzeGroup env ex m (?a, ?grp)")
    case (Inr c)
    then have acc: "accepted_of env ex m (?a, ?grp) = [c]" and rej: "rejected_of env ex m (?a, ?grp) = []"
      by (simp_all add: accepted_of_def rejected_of_def)
    have "c \<in> set (accepted_of env ex m (?a, ?grp))" using acc by simp
    from accepted_account [OF this] have "accountNumber c = row_accountNumber (hd ?grp)" by simp
    moreover have "hd ?grp \<in> set ?grp" using ne by simp
    ultimately have "accountNumber c = ?a" by (simp add: group_of_account)
    then have "length (customers_for out r) = 1" by (simp add: cust acc)
    moreover have "entries_for out r = []"
      unfolding entries_for_def out_def using R rej by (simp add: filter_sort_key_Nil)
    ultimately show ?thesis by simp
  next
    case (Inl es)
    then have acc: "accepted_of env ex m (?a, ?grp) = []" and rej: "rejected_of env ex m (?a, ?grp) = es"
      by (simp_all add: accepted_of_def rejected_of_def)
    have c0: "customers_for out r = []" by (simp add: cust acc)
    from analyzeGroup_Inl [OF Inl [unfolded grp]] grp
    consider (whole) why where "es = reject ?grp why"
      | (part) "es = reject (filter missing_contact ?grp) ''Missing Contact Name or Email.''"
          "\<exists>r'\<in>set ?grp. missing_contact r'"
      by auto
    then show ?thesis
    proof cases
      case whole
      have "filter ?P es = map (\<lambda>r. \<lparr> err_rowNumber = rowNumber r, reason = why \<rparr>)
              (filter (\<lambda>r'. rowNumber r' = rowNumber r) ?grp)"
        unfolding whole reject_def by (simp add: filter_map comp_def)
      also have "\<dots> = [\<lparr> err_rowNumber = rowNumber r, reason = why \<rparr>]"
        by (simp add: filter_rowNumber_single [OF dg rin])
      finally have "entries_for out r = [\<lparr> err_rowNumber = rowNumber r, reason = why \<rparr>]"
        unfolding entries_for_def out_def using R rej by (simp add: filter_sort_key_single)
      with c0 show ?thesis by blast
    next
      case part
      let ?why = "''Missing Contact Name or Email.''"
      have f: "filter ?P es = map (\<lambda>r. \<lparr> err_rowNumber = rowNumber r, reason = ?why \<rparr>)
              (filter missing_contact (filter (\<lambda>r'. rowNumber r' = rowNumber r) ?grp))"
        unfolding part(1) reject_def by (simp add: filter_map comp_def conj_commute)
      show ?thesis
      proof (cases "missing_contact r")
        case True
        have "filter ?P es = [\<lparr> err_rowNumber = rowNumber r, reason = ?why \<rparr>]"
          unfolding f by (simp add: filter_rowNumber_single [OF dg rin] True)
        then have "entries_for out r = [\<lparr> err_rowNumber = rowNumber r, reason = ?why \<rparr>]"
          unfolding entries_for_def out_def using R rej by (simp add: filter_sort_key_single)
        with c0 show ?thesis by blast
      next
        case False
        have "filter ?P es = []"
          unfolding f by (simp add: filter_rowNumber_single [OF dg rin] False)
        then have e0: "entries_for out r = []"
          unfolding entries_for_def out_def using R rej by (simp add: filter_sort_key_Nil)
        from part(2) obtain r' where r': "r' \<in> set ?grp" "missing_contact r'" by blast
        then have "\<lparr> err_rowNumber = rowNumber r', reason = ?why \<rparr> \<in> set es"
          unfolding part(1) reject_def by (simp add: image_iff) blast
        with sub rej have "\<lparr> err_rowNumber = rowNumber r', reason = ?why \<rparr> \<in> set (errors out)" by auto
        moreover from r' have "r' \<in> set rows" "row_accountNumber r' = ?a" by (simp_all add: group_of_account)
        ultimately show ?thesis using c0 e0 False r'(2) by blast
      qed
    qed
  qed
qed

lemmas resolver_defs = analyzeRows_def analyzeGroup_def buildCustomer_def resolvePrimary_def
  buildContacts_def reject_def registerParent_def secondPass_step_def existing_parent_map_def
  object_keys_order_def array_index_def index_of_key_def is_digit_def primaryAddress_def
  prototype_keys_def sample_row_def sample_env_def truthy_def quoted_def
  toLowerCase_def lower_char_def upper_chars_def lower_chars_def Let_def enumerate_eq_zip

text \<open>
  Claim C1, as stated, fails: a group rejected for a missing contact name or email reports
  only the rows that lack one. Of the two rows of account \<open>A-1\<close>, row 3 has no email and
  is reported; row 2 is complete, its group is not accepted, and it gets no entry.
\<close>

theorem unreported_row_counterexample:
  "analyzeRows sample_env [] [] half_missing_batch
     = Inr \<lparr> validCustomers = [],
             errors = [\<lparr> err_rowNumber = 3, reason = ''Missing Contact Name or Email.'' \<rparr>] \<rparr>
   \<and> rowNumber (half_missing_batch ! 0) = 2
   \<and> customers_for
         \<lparr> validCustomers = [],
           errors = [\<lparr> err_rowNumber = 3, reason = ''Missing Contact Name or Email.'' \<rparr>] \<rparr>
         (half_missing_batch ! 0) = []
   \<and> entries_for
         \<lparr> validCustomers = [],
           errors = [\<lparr> err_rowNumber = 3, reason = ''Missing Contact Name or Email.'' \<rparr>] \<rparr>
         (half_missing_batch ! 0) = []"
proof -
  have run: "analyzeRows sample_env [] [] half_missing_batch
     = Inr \<lparr> validCustomers = [],
             errors = [\<lparr> err_rowNumber = 3, reason = ''Missing Contact Name or Email.'' \<rparr>] \<rparr>"
    by (simp add: half_missing_batch_def resolver_defs)
  have rest: "rowNumber (half_missing_batch ! 0) = 2
   \<and> customers_for
         \<lparr> validCustomers = [],
           errors = [\<lparr> err_rowNumber = 3, reason = ''Missing Contact Name or Email.'' \<rparr>] \<rparr>
         (half_missing_batch ! 0) = []
   \<and> entries_for
         \<lparr> validCustomers = [],
           errors = [\<lparr> err_rowNumber = 3, reason = ''Missing Contact Name or Email.'' \<rparr>] \<rparr>
         (half_missing_batch ! 0) = []"
    by (simp add: half_missing_batch_def sample_row_def customers_for_def entries_for_def)
  from run rest show ?thesis by (rule conjI)
qed

text \<open>
  Claim C1, amended. For a batch whose rows have pairwise distinct row numbers and in which
  no account number is the name of a member of \<open>Object.prototype\<close>, the resolver returns,
  and every row is in exactly one of three cases:
  \<^item> its group is accepted: exactly one accepted customer has its account number, and no
    rejection entry has its row number;
  \<^item> its group is rejected and the row is reported: no accepted customer has its account
    number, and exactly one rejection entry has its row number;
  \<^item> its group is rejected for a missing contact name or email and the row itself has
    both: the row is in neither output, and a row of its group that lacks one is reported
    with the reason \<open>Missing Contact Name or Email.\<close>
  All entries of the rows of one group carry the same reason, every entry has the row
  number of a row of the batch, and every accepted customer has the account number of one.
\<close>

theorem rows_accounted_for:
  assumes "distinct (map rowNumber rows)"
    and "\<forall>r\<in>set rows. row_accountNumber r \<notin> set prototype_keys"
  shows "\<exists>out. analyzeRows env ex ps rows = Inr out
     \<and> (\<forall>r\<in>set rows.
           (length (customers_for out r) = 1 \<and> entries_for out r = [])
         \<or> (customers_for out r = []
             \<and> (\<exists>why. entries_for out r = [\<lparr> err_rowNumber = rowNumber r, reason = why \<rparr>]))
         \<or> (customers_for out r = [] \<and> entries_for out r = [] \<and> \<not> missing_contact r
             \<and> (\<exists>r'\<in>set rows. row_accountNumber r' = row_accountNumber r \<and> missing_contact r'
                   \<and> \<lparr> err_rowNumber = rowNumber r', reason = ''Missing Contact Name or Email.'' \<rparr>
                        \<in> set (errors out))))
     \<and> (\<forall>e\<in>set (errors out). \<forall>e'\<in>set (errors out). \<forall>r\<in>set rows. \<forall>r'\<in>set rows.
           err_rowNumber e = rowNumber r \<and> err_rowNumber e' = rowNumber r'
           \<and> row_accountNumber r = row_accountNumber r' \<longrightarrow> reason e = reason e')
     \<and> (\<forall>e\<in>set (errors out). \<exists>r\<in>set rows. err_rowNumber e = rowNumber r)
     \<and> (\<forall>c\<in>set (validCustomers out). \<exists>r\<in>set rows. accountNumber c = row_accountNumber r)"
proof -
  from groupByAccount_ok [OF assms(2)] obtain g where
    g: "groupByAccount rows [] = Inr g" "grouped g rows" by blast
  let ?gs = "object_keys_order g"
  let ?m = "name_map env ps rows"
  define out where "out = \<lparr> validCustomers = concat (map (accepted_of env ex ?m) ?gs),
             errors = sort_key err_rowNumber (concat (map (rejected_of env ex ?m) ?gs)) \<rparr>"
  have run: "analyzeRows env ex ps rows = Inr out"
    unfolding out_def by (rule analyzeRows_eq [OF g(1)])
  have gs: "grouped ?gs rows" by (rule grouped_object_keys_order [OF g(2)])
  have src: "\<exists>g'\<in>set ?gs. e \<in> set (rejected_of env ex ?m g')" if "e \<in> set (errors out)" for e
    using that by (auto simp: out_def)
  have entry: "\<exists>r\<in>set rows. err_rowNumber e = rowNumber r \<and> e \<in> set (rejected_of env ex ?m
        (row_accountNumber r, group_of rows (row_accountNumber r)))" if "e \<in> set (errors out)" for e
  proof -
    from src [OF that] obtain a rs where m: "(a, rs) \<in> set ?gs" "e \<in> set (rejected_of env ex ?m (a, rs))"
      by auto
    with gs have rs: "rs = group_of rows a" by (simp add: grouped_mem)
    from rejected_rows [OF m(2)] obtain r where r: "r \<in> set rs" "err_rowNumber e = rowNumber r" by auto
    with rs have "r \<in> set rows" "row_accountNumber r = a" by (simp_all add: group_of_account)
    with r m(2) rs show ?thesis by auto
  qed
  have one: "\<forall>r\<in>set rows.
           (length (customers_for out r) = 1 \<and> entries_for out r = [])
         \<or> (customers_for out r = []
             \<and> (\<exists>why. entries_for out r = [\<lparr> err_rowNumber = rowNumber r, reason = why \<rparr>]))
         \<or> (customers_for out r = [] \<and> entries_for out r = [] \<and> \<not> missing_contact r
             \<and> (\<exists>r'\<in>set rows. row_accountNumber r' = row_accountNumber r \<and> missing_contact r'
                   \<and> \<lparr> err_rowNumber = rowNumber r', reason = ''Missing Contact Name or Email.'' \<rparr>
                        \<in> set (errors out)))"
  proof
    fix r assume "r \<in> set rows"
    from row_outcome [OF assms(1) g this out_def]
    show "(length (customers_for out r) = 1 \<and> entries_for out r = [])
         \<or> (customers_for out r = []
             \<and> (\<exists>why. entries_for out r = [\<lparr> err_rowNumber = rowNumber r, reason = why \<rparr>]))
         \<or> (customers_for out r = [] \<and> entries_for out r = [] \<and> \<not> missing_contact r
             \<and> (\<exists>r'\<in>set rows. row_accountNumber r' = row_accountNumber r \<and> missing_contact r'
                   \<and> \<lparr> err_rowNumber = rowNumber r', reason = ''Missing Contact Name or Email.'' \<rparr>
                        \<in> set (errors out)))" .
  qed
  have same: "\<forall>e\<in>set (errors out). \<forall>e'\<in>set (errors out). \<forall>r\<in>set rows. \<forall>r'\<in>set rows.
           err_rowNumber e = rowNumber r \<and> err_rowNumber e' = rowNumber r'
           \<and> row_accountNumber r = row_accountNumber r' \<longrightarrow> reason e = reason e'"
  proof (intro ballI impI, elim conjE)
    fix e e' r r'
    assume e: "e \<in> set (errors out)" and e': "e' \<in> set (errors out)"
      and r: "r \<in> set rows" and r': "r' \<in> set rows"
      and n: "err_rowNumber e = rowNumber r" and n': "err_rowNumber e' = rowNumber r'"
      and a: "row_accountNumber r = row_accountNumber r'"
    from entry [OF e] obtain x where x: "x \<in> set rows" "err_rowNumber e = rowNumber x"
      "e \<in> set (rejected_of env ex ?m (row_accountNumber x, group_of rows (row_accountNumber x)))"
      by blast
    from entry [OF e'] obtain x' where x': "x' \<in> set rows" "err_rowNumber e' = rowNumber x'"
      "e' \<in> set (rejected_of env ex ?m (row_accountNumber x', group_of rows (row_accountNumber x')))"
      by blast
    have xr: "x = r" using distinct_rowNumber_eq [OF assms(1) r x(1)] x(2) n by simp
    have xr': "x' = r'" using distinct_rowNumber_eq [OF assms(1) r' x'(1)] x'(2) n' by simp
    have 1: "e \<in> set (rejected_of env ex ?m (row_accountNumber r, group_of rows (row_accountNumber r)))"
      using x(3) unfolding xr .
    have 2: "e' \<in> set (rejected_of env ex ?m (row_accountNumber r, group_of rows (row_accountNumber r)))"
      using x'(3) unfolding xr' a .
    show "reason e = reason e'"
      by (rule rejected_same_reason [OF 1 2])
  qed
  have ent: "\<forall>e\<in>set (errors out). \<exists>r\<in>set rows. err_rowNumber e = rowNumber r"
    using entry by blast
  have cus: "\<forall>c\<in>set (validCustomers out). \<exists>r\<in>set rows. accountNumber c = row_accountNumber r"
  proof
    fix c assume "c \<in> set (validCustomers out)"
    then obtain a rs where m: "(a, rs) \<in> set ?gs" "c \<in> set (accepted_of env ex ?m (a, rs))"
      by (auto simp: out_def)
    with gs have rs: "rs = group_of rows a" by (simp add: grouped_mem)
    from accepted_account [OF m(2)] have h: "rs \<noteq> []" "accountNumber c = row_accountNumber (hd rs)"
      by simp_all
    then have "hd rs \<in> set (group_of rows a)" using rs by simp
    then have "hd rs \<in> set rows" by (simp add: group_of_account)
    then show "\<exists>r\<in>set rows. accountNumber c = row_accountNumber r" using h(2) by (rule bexI [rotated])
  qed
  show ?thesis
    by (rule exI [of _ out], intro conjI) (rule run, rule one, rule same, rule ent, rule cus)
qed

theorem rows_accounted_for_witness:
  "distinct (map rowNumber mixed_batch)
   \<and> list_all (\<lambda>r. row_accountNumber r \<notin> set prototype_keys) mixed_batch
   \<and> (\<exists>out. analyzeRows sample_env [] [] mixed_batch = Inr out
         \<and> length (customers_for out (mixed_batch ! 2)) = 1 \<and> entries_for out (mixed_batch ! 2) = []
         \<and> customers_for out (mixed_batch ! 1) = []
         \<and> entries_for out (mixed_batch ! 1)
             = [\<lparr> err_rowNumber = 3, reason = ''Missing Contact Name or Email.'' \<rparr>]
         \<and> customers_for out (mixed_batch ! 0) = [] \<and> entries_for out (mixed_batch ! 0) = [])"
proof -
  have h1: "distinct (map rowNumber mixed_batch)"
    by (simp add: mixed_batch_def sample_row_def)
  have h2: "\<forall>r\<in>set mixed_batch. row_accountNumber r \<notin> set prototype_keys"
    by (simp add: mixed_batch_def sample_row_def prototype_keys_def)
  from rows_accounted_for [OF h1 h2, of sample_env "[]" "[]"]
  obtain out where out: "analyzeRows sample_env [] [] mixed_batch = Inr out" by blast
  have ev: "analyzeRows sample_env [] [] mixed_batch
     = Inr \<lparr> validCustomers =
               [\<lparr> type = PARENT, name = ''Beta'', accountNumber = ''B-2'', isVip = False,
                   addresses = [primaryAddress sample_env ''B-2'' (mixed_batch ! 2)],
                   parentId = None,
                   contacts = [\<lparr> contact_id = ''cont_imp_B-2_0'', contact_name = ''Cy'',
                                 email = ''cy@beta.test'', phone = ''555-0100'',
                                 contact_isPrimary = True \<rparr>],
                   customer_id = ''cust_import_1700000000000_pB-2'',
                   createdAt = ''2023-11-14T22:13:20.000Z'' \<rparr>],
             errors = [\<lparr> err_rowNumber = 3, reason = ''Missing Contact Name or Email.'' \<rparr>] \<rparr>"
    by (simp add: mixed_batch_def resolver_defs show_nat_digit digit_char_def)
  have res: "length (customers_for out (mixed_batch ! 2)) = 1 \<and> entries_for out (mixed_batch ! 2) = []
         \<and> customers_for out (mixed_batch ! 1) = []
         \<and> entries_for out (mixed_batch ! 1)
             = [\<lparr> err_rowNumber = 3, reason = ''Missing Contact Name or Email.'' \<rparr>]
         \<and> customers_for out (mixed_batch ! 0) = [] \<and> entries_for out (mixed_batch ! 0) = []"
    using out unfolding ev
    by (auto simp: customers_for_def entries_for_def mixed_batch_def sample_row_def)
  show ?thesis
    using h1 h2 out res by (simp add: list_all_iff)
qed









lemma nonempty_stamp: "''cust_import_'' @ s \<noteq> []"
  by simp






lemma groupByAccount_Inr_keys:
  "groupByAccount rows g0 = Inr g \<Longrightarrow> \<forall>r\<in>set rows. row_accountNumber r \<notin> set prototype_keys"
  using groupByAccount_Inl [of rows g0] by auto








lemma error_entry_source:
  assumes "analyzeRows env ex ps rows = Inr out" and "e \<in> set (errors out)"
  shows "\<exists>r\<in>set rows. err_rowNumber e = rowNumber r"
proof -
  from assms(1) obtain g where g: "groupByAccount rows [] = Inr g"
    by (cases "groupByAccount rows []") (simp_all add: analyzeRows_def)
  from groupByAccount_ok [OF groupByAccount_Inr_keys [OF g]] g have gr: "grouped g rows" by simp
  let ?gs = "object_keys_order g"
  let ?m = "name_map env ps rows"
  have gs: "grouped ?gs rows" by (rule grouped_object_keys_order [OF gr])
  from assms obtain a rs where m: "(a, rs) \<in> set ?gs" "e \<in> set (rejected_of env ex ?m (a, rs))"
    unfolding analyzeRows_eq [OF g] by auto
  with gs have rs: "rs = group_of rows a" by (simp add: grouped_mem)
  from rejected_rows [OF m(2)] obtain r where r: "r \<in> set rs" "err_rowNumber e = rowNumber r" by auto
  with rs have "r \<in> set rows" by (simp add: group_of_account)
  with r(2) show ?thesis by blast
qed

lemma parseRow_rowNumber: "r \<in> set (parseRow (k, l)) \<Longrightarrow> rowNumber r = k + 2"
  by (auto simp: parseRow_def Let_def split: if_splits)

lemma parseRow_short: "length (parseCSVLine l) < 7 \<Longrightarrow> parseRow (k, l) = []"
  by (simp add: parseRow_def Let_def)

lemma rawRows_mem:
  "r \<in> set (rawRows lines) \<longleftrightarrow> (\<exists>k<length lines. r \<in> set (parseRow (k, lines ! k)))"
  by (auto simp: rawRows_def in_set_enumerate_eq)

lemma rowNumbers_from:
  "r \<in> set (concat (map parseRow (enumerate n lines))) \<Longrightarrow> n + 2 \<le> rowNumber r"
  by (auto simp: in_set_enumerate_eq dest!: parseRow_rowNumber)

lemma distinct_rowNumbers_from:
  "distinct (map rowNumber (concat (map parseRow (enumerate n lines))))"
proof (induction lines arbitrary: n)
  case Nil
  then show ?case by simp
next
  case (Cons l ls)
  have tail: "\<forall>r\<in>set (concat (map parseRow (enumerate (Suc n) ls))). rowNumber r \<noteq> n + 2"
    using rowNumbers_from [of _ "Suc n" ls] by fastforce
  have head: "parseRow (n, l) = [] \<or> (\<exists>r. parseRow (n, l) = [r] \<and> rowNumber r = n + 2)"
    by (simp add: parseRow_def Let_def)
  from head show ?case
  proof
    assume "parseRow (n, l) = []"
    then show ?thesis using Cons.IH [of "Suc n"] by simp
  next
    assume "\<exists>r. parseRow (n, l) = [r] \<and> rowNumber r = n + 2"
    then obtain r where "parseRow (n, l) = [r]" "rowNumber r = n + 2" by blast
    moreover have "rowNumber r \<notin> rowNumber ` set (concat (map parseRow (enumerate (Suc n) ls)))"
      using tail \<open>rowNumber r = n + 2\<close> by (metis (no_types, lifting) image_iff)
    ultimately show ?thesis using Cons.IH [of "Suc n"] by (simp del: set_concat)
  qed
qed

lemma distinct_rawRows: "distinct (map rowNumber (rawRows lines))"
  unfolding rawRows_def by (rule distinct_rowNumbers_from)

text \<open>
  Claim C9. Let \<open>k\<close> be the index of a data row of the file (after the header and the
  blank lines are removed), so that its row number is \<open>k + 2\<close>.
  If the row parses to fewer than 7 columns, no parsed row has its row number, and if the
  resolver returns, no rejection entry has it either.
  If it parses to at least 7 columns, exactly one parsed row has its row number; its contact
  phone is empty when there are 7 columns and is column 8 otherwise, and its primary flag
  holds exactly when column 9 exists and is \<open>true\<close> or \<open>yes\<close> after lowercasing, or is \<open>1\<close>.
\<close>

theorem short_rows_dropped:
  assumes "k < length (dataRows text)"
  shows "(length (parseCSVLine (dataRows text ! k)) < 7 \<longrightarrow>
            (\<forall>r\<in>set (rawRows (dataRows text)). rowNumber r \<noteq> k + 2)
          \<and> (\<forall>out. processFile env ex ps text = Inr out \<longrightarrow>
                 (\<forall>e\<in>set (errors out). err_rowNumber e \<noteq> k + 2)))
       \<and> (7 \<le> length (parseCSVLine (dataRows text ! k)) \<longrightarrow>
            (\<exists>r. filter (\<lambda>r. rowNumber r = k + 2) (rawRows (dataRows text)) = [r]
               \<and> (length (parseCSVLine (dataRows text ! k)) = 7 \<longrightarrow> contactPhone r = [])
               \<and> (7 < length (parseCSVLine (dataRows text ! k)) \<longrightarrow>
                    contactPhone r = parseCSVLine (dataRows text ! k) ! 7)
               \<and> (row_isPrimary r \<longleftrightarrow>
                    8 < length (parseCSVLine (dataRows text ! k))
                    \<and> (toLowerCase (parseCSVLine (dataRows text ! k) ! 8) = ''true''
                       \<or> toLowerCase (parseCSVLine (dataRows text ! k) ! 8) = ''yes''
                       \<or> parseCSVLine (dataRows text ! k) ! 8 = ''1''))))"
proof (intro conjI impI)
  let ?lines = "dataRows text"
  let ?cols = "parseCSVLine (?lines ! k)"
  assume short: "length ?cols < 7"
  show none: "\<forall>r\<in>set (rawRows ?lines). rowNumber r \<noteq> k + 2"
  proof
    fix r assume "r \<in> set (rawRows ?lines)"
    then obtain k' where k': "k' < length ?lines" "r \<in> set (parseRow (k', ?lines ! k'))"
      unfolding rawRows_mem by blast
    from parseRow_rowNumber [OF k'(2)] have n: "rowNumber r = k' + 2" .
    show "rowNumber r \<noteq> k + 2"
    proof
      assume "rowNumber r = k + 2"
      with n have "k' = k" by simp
      with k'(2) parseRow_short [OF short] show False by simp
    qed
  qed
  show "\<forall>out. processFile env ex ps text = Inr out \<longrightarrow>
                 (\<forall>e\<in>set (errors out). err_rowNumber e \<noteq> k + 2)"
  proof (intro allI impI ballI)
    fix out e assume run: "processFile env ex ps text = Inr out" and e: "e \<in> set (errors out)"
    from run have "analyzeRows env ex ps (rawRows ?lines) = Inr out" by (simp add: processFile_def)
    from error_entry_source [OF this e] obtain r where "r \<in> set (rawRows ?lines)"
      "err_rowNumber e = rowNumber r" by blast
    with none show "err_rowNumber e \<noteq> k + 2" by simp
  qed
next
  let ?lines = "dataRows text"
  let ?cols = "parseCSVLine (?lines ! k)"
  assume long: "7 \<le> length ?cols"
  then obtain r where r: "parseRow (k, ?lines ! k) = [r]"
    by (simp add: parseRow_def Let_def)
  then have "r \<in> set (rawRows ?lines)" unfolding rawRows_mem using assms by auto
  moreover have "rowNumber r = k + 2" using r parseRow_rowNumber [of r k "?lines ! k"] by simp
  ultimately have f: "filter (\<lambda>r. rowNumber r = k + 2) (rawRows ?lines) = [r]"
    using filter_rowNumber_single [OF distinct_rawRows, of r ?lines] by simp
  have p7: "length ?cols = 7 \<longrightarrow> contactPhone r = []"
    using r long by (auto simp: parseRow_def Let_def)
  have p8: "7 < length ?cols \<longrightarrow> contactPhone r = ?cols ! 7"
    using r long by (auto simp: parseRow_def Let_def)
  have pr: "row_isPrimary r \<longleftrightarrow>
                    8 < length ?cols
                    \<and> (toLowerCase (?cols ! 8) = ''true'' \<or> toLowerCase (?cols ! 8) = ''yes''
                       \<or> ?cols ! 8 = ''1'')"
    using r long by (auto simp: parseRow_def Let_def)
  show "\<exists>r. filter (\<lambda>r. rowNumber r = k + 2) (rawRows ?lines) = [r]
               \<and> (length ?cols = 7 \<longrightarrow> contactPhone r = [])
               \<and> (7 < length ?cols \<longrightarrow> contactPhone r = ?cols ! 7)
               \<and> (row_isPrimary r \<longleftrightarrow>
                    8 < length ?cols
                    \<and> (toLowerCase (?cols ! 8) = ''true'' \<or> toLowerCase (?cols ! 8) = ''yes''
                       \<or> ?cols ! 8 = ''1''))"
    by (rule exI [of _ r], intro conjI) (rule f, rule p7, rule p8, rule pr)
qed

theorem short_rows_dropped_witness:
  "dataRows sample_csv
     = [''too,short'', ''Acme,A-1,1 Main St,62701,,Ann,ann@acme.test'',
        ''Beta,B-2,2 Side St,62702,,Bo,bo@beta.test,555-0101,YES'']
   \<and> length (parseCSVLine (dataRows sample_csv ! 0)) < 7
   \<and> 0 + 2 \<notin> rowNumber ` set (rawRows (dataRows sample_csv))
   \<and> length (parseCSVLine (dataRows sample_csv ! 1)) = 7
   \<and> (\<exists>r. filter (\<lambda>r. rowNumber r = 1 + 2) (rawRows (dataRows sample_csv)) = [r]
         \<and> contactPhone r = [] \<and> \<not> row_isPrimary r)
   \<and> 8 < length (parseCSVLine (dataRows sample_csv ! 2))
   \<and> toLowerCase (parseCSVLine (dataRows sample_csv ! 2) ! 8) = ''yes''
   \<and> (\<exists>r. filter (\<lambda>r. rowNumber r = 2 + 2) (rawRows (dataRows sample_csv)) = [r]
         \<and> contactPhone r = ''555-0101'' \<and> row_isPrimary r)"
proof -
  have lines: "dataRows sample_csv
     = [''too,short'', ''Acme,A-1,1 Main St,62701,,Ann,ann@acme.test'',
        ''Beta,B-2,2 Side St,62702,,Bo,bo@beta.test,555-0101,YES'']"
    by (simp add: sample_csv_def dataRows_def trim_def is_space_def)
  have len: "0 < length (dataRows sample_csv)" "1 < length (dataRows sample_csv)"
    "2 < length (dataRows sample_csv)"
    unfolding lines by simp_all
  have c0: "parseCSVLine (dataRows sample_csv ! 0) = [''too'', ''short'']"
    unfolding lines by (simp add: parseCSVLine_def strip_quotes_def trim_def is_space_def)
  have c1: "parseCSVLine (dataRows sample_csv ! 1)
      = [''Acme'', ''A-1'', ''1 Main St'', ''62701'', [], ''Ann'', ''ann@acme.test'']"
    unfolding lines by (simp add: parseCSVLine_def strip_quotes_def trim_def is_space_def)
  have c2: "parseCSVLine (dataRows sample_csv ! 2)
      = [''Beta'', ''B-2'', ''2 Side St'', ''62702'', [], ''Bo'', ''bo@beta.test'', ''555-0101'', ''YES'']"
    unfolding lines by (simp add: parseCSVLine_def strip_quotes_def trim_def is_space_def)
  have s0: "length (parseCSVLine (dataRows sample_csv ! 0)) < 7" unfolding c0 by simp
  have s1: "length (parseCSVLine (dataRows sample_csv ! 1)) = 7" unfolding c1 by simp
  have s2: "8 < length (parseCSVLine (dataRows sample_csv ! 2))" unfolding c2 by simp
  have y: "toLowerCase (parseCSVLine (dataRows sample_csv ! 2) ! 8) = ''yes''"
    unfolding c2 by (simp add: toLowerCase_def lower_char_def upper_chars_def lower_chars_def)
  note t0 = short_rows_dropped [OF len(1), of sample_env "[]" "[]", THEN conjunct1, THEN mp, OF s0,
      THEN conjunct1]
  have r0: "0 + 2 \<notin> rowNumber ` set (rawRows (dataRows sample_csv))"
    using t0 by (auto simp: image_iff)
  from short_rows_dropped [OF len(2), of sample_env "[]" "[]", THEN conjunct2] s1
  obtain r where r: "filter (\<lambda>r. rowNumber r = 1 + 2) (rawRows (dataRows sample_csv)) = [r]"
    "contactPhone r = []"
    "row_isPrimary r \<longleftrightarrow> 8 < length (parseCSVLine (dataRows sample_csv ! 1))
        \<and> (toLowerCase (parseCSVLine (dataRows sample_csv ! 1) ! 8) = ''true''
           \<or> toLowerCase (parseCSVLine (dataRows sample_csv ! 1) ! 8) = ''yes''
           \<or> parseCSVLine (dataRows sample_csv ! 1) ! 8 = ''1'')"
    by auto
  from r(3) s1 have "\<not> row_isPrimary r" by simp
  with r(1,2) have r1: "\<exists>r. filter (\<lambda>r. rowNumber r = 1 + 2) (rawRows (dataRows sample_csv)) = [r]
         \<and> contactPhone r = [] \<and> \<not> row_isPrimary r" by blast
  from short_rows_dropped [OF len(3), of sample_env "[]" "[]", THEN conjunct2] s2
  obtain q where q: "filter (\<lambda>r. rowNumber r = 2 + 2) (rawRows (dataRows sample_csv)) = [q]"
    "contactPhone q = parseCSVLine (dataRows sample_csv ! 2) ! 7"
    "row_isPrimary q \<longleftrightarrow> 8 < length (parseCSVLine (dataRows sample_csv ! 2))
        \<and> (toLowerCase (parseCSVLine (dataRows sample_csv ! 2) ! 8) = ''true''
           \<or> toLowerCase (parseCSVLine (dataRows sample_csv ! 2) ! 8) = ''yes''
           \<or> parseCSVLine (dataRows sample_csv ! 2) ! 8 = ''1'')"
    by auto
  from q(3) s2 y have "row_isPrimary q" by simp
  moreover from q(2) have "contactPhone q = ''555-0101''" unfolding c2 by simp
  ultimately have r2: "\<exists>r. filter (\<lambda>r. rowNumber r = 2 + 2) (rawRows (dataRows sample_csv)) = [r]
         \<and> contactPhone r = ''555-0101'' \<and> row_isPrimary r" using q(1) by blast
  show ?thesis
    by (intro conjI) (rule lines, rule s0, rule r0, rule s1, rule r1, rule s2, rule y, rule r2)
qed

end
